theory Spec2Isabelle
  imports Complex_Main "HOL-Library.Char_ord" "HOL-Library.List_Lexorder" "HOL-Library.Multiset"
begin

section \<open>Data model\<close>

text \<open>
  A row of the \<open>flower_orders\<close> table as the query client returns it: every column is a
  string (the date and the timestamp in their ISO serialisation, the two enums as their
  labels), \<open>special_requests\<close> is nullable. The column \<open>id\<close> is named \<open>order_id\<close> here.
\<close>

record Order =
  order_id :: string
  customer_name :: string
  email :: string
  phone_number :: string
  pickup_date :: string
  time_slot :: string
  special_requests :: "string option"
  status :: string
  created_at :: string

text \<open>
  The aggregate row \<open>{ email, name, count, lastDate }\<close> of the customer page. Its
  \<open>email\<close> field is named \<open>email_c\<close>, since \<open>email\<close> is the order's column.
\<close>

record Customer =
  email_c :: string
  name :: string
  count :: nat
  lastDate :: string

section \<open>Strings\<close>

text \<open>
  Strings are lists of bytes, the UTF-8 encoding of the text. The relational operators
  on strings are the lexicographic order of the bytes (\<open>List_Lexorder\<close> over
  \<open>Char_ord\<close>), which is the language's order of code units for text of the Basic
  Multilingual Plane. Lower-casing is the platform's, see below.
\<close>

fun startsWith :: "string \<Rightarrow> string \<Rightarrow> bool" where
  "startsWith s [] = True"
| "startsWith [] (c # q) = False"
| "startsWith (d # s) (c # q) = (d = c \<and> startsWith s q)"

text \<open>\<open>s.includes(q)\<close>: \<open>q\<close> occurs in \<open>s\<close> as a contiguous block.\<close>

fun includes_str :: "string \<Rightarrow> string \<Rightarrow> bool" where
  "includes_str [] q = (q = [])"
| "includes_str (d # s) q = (startsWith (d # s) q \<or> includes_str s q)"

text \<open>\<open>Array.prototype.join(sep)\<close> on an array of strings.\<close>

fun join :: "string \<Rightarrow> string list \<Rightarrow> string" where
  "join sep [] = []"
| "join sep [x] = x"
| "join sep (x # y # ys) = x @ sep @ join sep (y # ys)"

text \<open>The decimal numeral a template literal prints for a number that is not negative.\<close>

function show_int :: "int \<Rightarrow> string" where
  "show_int n =
     (if n < 10 then [char_of (48 + n)]
      else show_int (n div 10) @ [char_of (48 + n mod 10)])"
  by pat_completeness auto
termination
  by (relation "measure nat") auto

definition show_nat :: "nat \<Rightarrow> string" where
  "show_nat n = show_int (int n)"

text \<open>
  \<open>parseInt\<close> on the values the threshold selector can hold: a string that starts with
  decimal digits gives the number they spell, any other string gives \<open>NaN\<close>
  (\<open>None\<close>). Leading blanks, signs and radix prefixes are not modelled.
\<close>

definition is_digit :: "char \<Rightarrow> bool" where
  "is_digit c = (CHR ''0'' \<le> c \<and> c \<le> CHR ''9'')"

definition digit_val :: "char \<Rightarrow> int" where
  "digit_val c = int (of_char c) - 48"

definition parseInt :: "string \<Rightarrow> int option" where
  "parseInt s =
     (case takeWhile is_digit s of
        [] \<Rightarrow> None
      | ds \<Rightarrow> Some (foldl (\<lambda>acc c. acc * 10 + digit_val c) 0 ds))"

section \<open>The platform\<close>

text \<open>
  \<open>Date\<close>, the \<open>date-fns\<close> functions and \<open>String.prototype.toLowerCase\<close> belong to
  the platform, not to this repository, so they are parameters of the model. A \<open>Date\<close>
  is represented by its epoch milliseconds, hence \<open>getTime\<close> is the identity on it.
  The columns parsed are \<open>DATE NOT NULL\<close> and \<open>TIMESTAMP WITH TIME ZONE NOT NULL\<close>, so
  parsing never yields an invalid date.
\<close>

record Platform =
  newDate :: "string \<Rightarrow> int"
  format :: "int \<Rightarrow> string \<Rightarrow> string"
  subDays :: "int \<Rightarrow> nat \<Rightarrow> int"
  toLowerCase :: "string \<Rightarrow> string"

section \<open>Orders page\<close>

subsection \<open>Filter\<close>

definition matchesSearch :: "Platform \<Rightarrow> string \<Rightarrow> Order \<Rightarrow> bool" where
  "matchesSearch L search od =
     (let q = toLowerCase L search
      in q = [] \<or> includes_str (toLowerCase L (customer_name od)) q
         \<or> includes_str (toLowerCase L (email od)) q
         \<or> includes_str (phone_number od) q)"

definition matchesStatus :: "string \<Rightarrow> Order \<Rightarrow> bool" where
  "matchesStatus statusFilter od = (statusFilter = ''all'' \<or> status od = statusFilter)"

definition matchesDate :: "string \<Rightarrow> Order \<Rightarrow> bool" where
  "matchesDate dateFilter od = (dateFilter = [] \<or> pickup_date od = dateFilter)"

definition filtered_orders ::
  "Platform \<Rightarrow> string \<Rightarrow> string \<Rightarrow> string \<Rightarrow> Order list \<Rightarrow> Order list" where
  "filtered_orders L search statusFilter dateFilter orders =
     filter (\<lambda>od. matchesSearch L search od \<and> matchesStatus statusFilter od
                  \<and> matchesDate dateFilter od)
       orders"

subsection \<open>Sort\<close>

datatype SortField =
  SF_created_at | SF_pickup_date | SF_customer_name | SF_phone_number | SF_time_slot

datatype SortDir = asc | desc

text \<open>The comparator's \<open>aVal\<close> and \<open>bVal\<close> have type \<open>string | number\<close>.\<close>

datatype SortVal = Num int | Str string

fun sortVal :: "Platform \<Rightarrow> SortField \<Rightarrow> Order \<Rightarrow> SortVal" where
  "sortVal L SF_customer_name a = Str (toLowerCase L (customer_name a))"
| "sortVal L SF_phone_number a = Str (phone_number a)"
| "sortVal L SF_time_slot a = Str (time_slot a)"
| "sortVal L SF_pickup_date a = Num (newDate L (pickup_date a))"
| "sortVal L SF_created_at a = Num (newDate L (created_at a))"

text \<open>
  \<open>aVal < bVal\<close>. Both values come from the same branch of the switch, so a number is
  never compared with a string; those cases are given \<open>False\<close>.
\<close>

fun val_less :: "SortVal \<Rightarrow> SortVal \<Rightarrow> bool" where
  "val_less (Num x) (Num y) = (x < y)"
| "val_less (Str s) (Str t) = (s < t)"
| "val_less (Num x) (Str t) = False"
| "val_less (Str s) (Num y) = False"

definition compareFn :: "Platform \<Rightarrow> SortField \<Rightarrow> SortDir \<Rightarrow> Order \<Rightarrow> Order \<Rightarrow> int" where
  "compareFn L sortField sortDir a b =
     (let aVal = sortVal L sortField a; bVal = sortVal L sortField b
      in if val_less aVal bVal then (if sortDir = asc then - 1 else 1)
         else if val_less bVal aVal then (if sortDir = asc then 1 else - 1)
         else 0)"

text \<open>
  \<open>Array.prototype.sort(compareFn)\<close> is the engine's. The language standard requires it
  to be stable and to order the elements by the comparator; insertion of each element
  before the first one that does not precede it is the algorithm taken here.
\<close>

fun insort_cmp :: "('a \<Rightarrow> 'a \<Rightarrow> int) \<Rightarrow> 'a \<Rightarrow> 'a list \<Rightarrow> 'a list" where
  "insort_cmp cmp x [] = [x]"
| "insort_cmp cmp x (y # ys) =
     (if cmp x y \<le> 0 then x # y # ys else y # insort_cmp cmp x ys)"

definition array_sort :: "('a \<Rightarrow> 'a \<Rightarrow> int) \<Rightarrow> 'a list \<Rightarrow> 'a list" where
  "array_sort cmp xs = foldr (insort_cmp cmp) xs []"

definition sorted_orders :: "Platform \<Rightarrow> SortField \<Rightarrow> SortDir \<Rightarrow> Order list \<Rightarrow> Order list" where
  "sorted_orders L sortField sortDir filtered = array_sort (compareFn L sortField sortDir) filtered"

subsection \<open>Pagination\<close>

definition PAGE_SIZE :: nat where
  "PAGE_SIZE = 10"

text \<open>\<open>Array.prototype.slice(start, end)\<close> for indices that are not negative.\<close>

definition slice :: "'a list \<Rightarrow> nat \<Rightarrow> nat \<Rightarrow> 'a list" where
  "slice xs start end = take (end - start) (drop start xs)"

text \<open>\<open>Math.ceil(filtered.length / PAGE_SIZE)\<close>: the quotient is a fraction, then rounded up.\<close>

definition totalPages :: "'a list \<Rightarrow> nat" where
  "totalPages filtered = nat \<lceil>(of_nat (length filtered) :: rat) / of_nat PAGE_SIZE\<rceil>"

definition paginated :: "'a list \<Rightarrow> nat \<Rightarrow> 'a list" where
  "paginated filtered page = slice filtered (page * PAGE_SIZE) ((page + 1) * PAGE_SIZE)"

subsection \<open>PDF and print export\<close>

text \<open>
  What \<open>exportPDF\<close> hands to the PDF library: the three \<open>doc.text\<close> calls with their
  coordinates, the table's head and body, and the file name.
\<close>

record PdfDoc =
  texts :: "(string \<times> nat \<times> nat) list"
  table_startY :: nat
  table_head :: "string list list"
  table_body :: "string list list"
  saved_as :: string

definition pdf_row :: "Platform \<Rightarrow> Order \<Rightarrow> string list" where
  "pdf_row L od =
     [customer_name od, email od, phone_number od, pickup_date od, time_slot od, status od,
      format L (newDate L (created_at od)) ''MMM d, yyyy'']"

definition exportPDF :: "Platform \<Rightarrow> int \<Rightarrow> Order list \<Rightarrow> PdfDoc" where
  "exportPDF L now filtered =
     \<lparr>texts = [(''Vinayaka Pooja Flowers'', 14, 18),
               (''Generated: '' @ format L now ''PPpp'', 14, 26),
               (show_nat (length filtered) @ '' orders'', 14, 32)],
      table_startY = 38,
      table_head = [[''Customer'', ''Email'', ''Phone'', ''Pickup Date'', ''Slot'', ''Status'',
                     ''Created'']],
      table_body = map (pdf_row L) filtered,
      saved_as = ''vinayaka-orders.pdf''\<rparr>"

definition print_row :: "Platform \<Rightarrow> Order \<Rightarrow> string" where
  "print_row L od =
     ''<tr><td>'' @ customer_name od @ ''</td><td>'' @ email od @ ''</td><td>'' @ phone_number od
     @ ''</td><td>'' @ pickup_date od @ ''</td><td>'' @ time_slot od @ ''</td><td>'' @ status od
     @ ''</td><td>'' @ format L (newDate L (created_at od)) ''MMM d, yyyy'' @ ''</td></tr>''"

definition print_prefix :: string where
  "print_prefix =
     ''<!DOCTYPE html><html><head><title>Vinayaka Orders</title><style>body{font-family:sans-serif;padding:20px}h1{color:#5c3310}table{width:100%;border-collapse:collapse;margin-top:12px}th,td{border:1px solid #ddd;padding:6px 8px;text-align:left;font-size:12px}th{background:#d97706;color:#fff}</style></head><body><h1>Vinayaka Pooja Flowers</h1><p>''"

text \<open>The separator between the timestamp and the count is an em dash between two blanks.\<close>

definition print_dash :: string where
  "print_dash = [CHR '' '', CHR 0xE2, CHR 0x80, CHR 0x94, CHR '' '']"

definition print_table_head :: string where
  "print_table_head =
     '' orders</p><table><tr><th>Customer</th><th>Email</th><th>Phone</th><th>Pickup</th><th>Slot</th><th>Status</th><th>Created</th></tr>''"

definition print_suffix :: string where
  "print_suffix = ''</table><script>window.print();window.close();</script></body></html>''"

text \<open>
  \<open>handlePrint\<close> writes one document into the window it opened, or returns without
  writing when the window could not be opened (\<open>None\<close>).
\<close>

definition handlePrint :: "Platform \<Rightarrow> int \<Rightarrow> bool \<Rightarrow> Order list \<Rightarrow> string option" where
  "handlePrint L now printWindow filtered =
     (if \<not> printWindow then None
      else let rows = join [] (map (print_row L) filtered)
           in Some (print_prefix @ format L now ''PPpp'' @ print_dash
                    @ show_nat (length filtered) @ print_table_head @ rows @ print_suffix))"

section \<open>Dashboard\<close>

text \<open>
  \<open>lineData\<close>: the fourteen points \<open>{ date, orders }\<close> of the line chart. The clock is
  read once, as \<open>now\<close>.
\<close>

definition lineData :: "Platform \<Rightarrow> int \<Rightarrow> Order list \<Rightarrow> (string \<times> nat) list" where
  "lineData L now orders =
     map (\<lambda>i. let date = subDays L now (13 - i);
                  dateStr = format L date ''yyyy-MM-dd'';
                  count = length (filter (\<lambda>od. format L (newDate L (created_at od)) ''yyyy-MM-dd''
                                               = dateStr) orders)
              in (format L date ''MMM d'', count))
       [0..<14]"

section \<open>Customer page\<close>

subsection \<open>Aggregation\<close>

text \<open>
  The \<open>Map\<close> keeps its entries in insertion order: it is a list of key-value pairs with
  \<open>get\<close>, \<open>has\<close> and \<open>set\<close> (which replaces in place, or appends a new key).
\<close>

type_synonym CustomerMap = "(string \<times> Customer) list"

fun map_get :: "CustomerMap \<Rightarrow> string \<Rightarrow> Customer option" where
  "map_get [] k = None"
| "map_get ((k', v) # m) k = (if k' = k then Some v else map_get m k)"

definition map_has :: "CustomerMap \<Rightarrow> string \<Rightarrow> bool" where
  "map_has m k = (map_get m k \<noteq> None)"

fun map_set :: "CustomerMap \<Rightarrow> string \<Rightarrow> Customer \<Rightarrow> CustomerMap" where
  "map_set [] k v = [(k, v)]"
| "map_set ((k', v') # m) k v = (if k' = k then (k, v) # m else (k', v') # map_set m k v)"

definition map_values :: "CustomerMap \<Rightarrow> Customer list" where
  "map_values m = map snd m"

text \<open>
  The body of \<open>orders.forEach\<close>. The found object is mutated in place, which is a
  \<open>set\<close> of the changed object under the same key.
\<close>

definition add_order :: "CustomerMap \<Rightarrow> Order \<Rightarrow> CustomerMap" where
  "add_order m od =
     (case map_get m (email od) of
        Some existing \<Rightarrow>
          (let e1 = existing\<lparr>count := count existing + 1\<rparr>;
               e2 = (if created_at od > lastDate e1
                     then e1\<lparr>lastDate := created_at od, name := customer_name od\<rparr>
                     else e1)
           in map_set m (email od) e2)
      | None \<Rightarrow>
          map_set m (email od)
            \<lparr>email_c = email od, name = customer_name od, count = 1, lastDate = created_at od\<rparr>)"

definition customers :: "Order list \<Rightarrow> Customer list" where
  "customers orders = map_values (foldl add_order [] orders)"

subsection \<open>The variant that merges a fixed data set\<close>

definition DUMMY_CUSTOMERS :: "Customer list" where
  "DUMMY_CUSTOMERS =
    [
     \<lparr>email_c = ''rahul.sharma@email.com'', name = ''Rahul Sharma'', count = 5, lastDate = ''2026-02-14T10:00:00Z''\<rparr>,
     \<lparr>email_c = ''priya.iyer@email.com'', name = ''Priya Iyer'', count = 3, lastDate = ''2026-02-13T09:00:00Z''\<rparr>,
     \<lparr>email_c = ''arun.kumar@email.com'', name = ''Arun Kumar'', count = 8, lastDate = ''2026-02-12T08:30:00Z''\<rparr>,
     \<lparr>email_c = ''lakshmi.devi@email.com'', name = ''Lakshmi Devi'', count = 2, lastDate = ''2026-02-11T14:00:00Z''\<rparr>,
     \<lparr>email_c = ''suresh.reddy@email.com'', name = ''Suresh Reddy'', count = 6, lastDate = ''2026-02-10T11:00:00Z''\<rparr>,
     \<lparr>email_c = ''meena.nair@email.com'', name = ''Meena Nair'', count = 1, lastDate = ''2026-02-09T16:00:00Z''\<rparr>,
     \<lparr>email_c = ''ganesh.patel@email.com'', name = ''Ganesh Patel'', count = 4, lastDate = ''2026-02-08T07:30:00Z''\<rparr>,
     \<lparr>email_c = ''anitha.rao@email.com'', name = ''Anitha Rao'', count = 7, lastDate = ''2026-02-07T13:00:00Z''\<rparr>,
     \<lparr>email_c = ''vijay.krishnan@email.com'', name = ''Vijay Krishnan'', count = 2, lastDate = ''2026-02-06T10:30:00Z''\<rparr>,
     \<lparr>email_c = ''deepa.menon@email.com'', name = ''Deepa Menon'', count = 9, lastDate = ''2026-02-05T15:00:00Z''\<rparr>,
     \<lparr>email_c = ''karthik.subram@email.com'', name = ''Karthik Subramanian'', count = 3, lastDate = ''2026-02-04T08:00:00Z''\<rparr>,
     \<lparr>email_c = ''revathi.bala@email.com'', name = ''Revathi Balasubramanian'', count = 1, lastDate = ''2026-02-03T12:00:00Z''\<rparr>,
     \<lparr>email_c = ''mohan.das@email.com'', name = ''Mohan Das'', count = 5, lastDate = ''2026-02-02T09:30:00Z''\<rparr>,
     \<lparr>email_c = ''sridevi.ram@email.com'', name = ''Sridevi Raman'', count = 4, lastDate = ''2026-02-01T14:30:00Z''\<rparr>,
     \<lparr>email_c = ''prasad.venkat@email.com'', name = ''Prasad Venkatesh'', count = 2, lastDate = ''2026-01-31T11:00:00Z''\<rparr>,
     \<lparr>email_c = ''kavitha.sundar@email.com'', name = ''Kavitha Sundaram'', count = 6, lastDate = ''2026-01-30T16:30:00Z''\<rparr>,
     \<lparr>email_c = ''ramesh.babu@email.com'', name = ''Ramesh Babu'', count = 3, lastDate = ''2026-01-29T07:00:00Z''\<rparr>,
     \<lparr>email_c = ''uma.mahesh@email.com'', name = ''Uma Maheshwari'', count = 10, lastDate = ''2026-01-28T13:30:00Z''\<rparr>,
     \<lparr>email_c = ''balaji.srinivas@email.com'', name = ''Balaji Srinivasan'', count = 1, lastDate = ''2026-01-27T10:00:00Z''\<rparr>,
     \<lparr>email_c = ''padma.narayanan@email.com'', name = ''Padma Narayanan'', count = 7, lastDate = ''2026-01-26T15:00:00Z''\<rparr>
    ]"

definition add_dummy :: "CustomerMap \<Rightarrow> Customer \<Rightarrow> CustomerMap" where
  "add_dummy m d = (if \<not> map_has m (email_c d) then map_set m (email_c d) d else m)"

definition customers_merged :: "Customer list \<Rightarrow> Order list \<Rightarrow> Customer list" where
  "customers_merged dummy orders =
     map_values (foldl add_dummy (foldl add_order [] orders) dummy)"

definition customers_with_dummy :: "Order list \<Rightarrow> Customer list" where
  "customers_with_dummy orders = customers_merged DUMMY_CUSTOMERS orders"

subsection \<open>Filter\<close>

definition matchesSearch_c :: "Platform \<Rightarrow> string \<Rightarrow> Customer \<Rightarrow> bool" where
  "matchesSearch_c L search c =
     (let q = toLowerCase L search
      in q = [] \<or> includes_str (toLowerCase L (email_c c)) q
         \<or> includes_str (toLowerCase L (name c)) q)"

text \<open>A comparison with \<open>NaN\<close> is false.\<close>

definition matchesMin :: "string \<Rightarrow> Customer \<Rightarrow> bool" where
  "matchesMin minOrders c =
     (minOrders = ''all'' \<or>
      (case parseInt minOrders of None \<Rightarrow> False | Some n \<Rightarrow> int (count c) \<ge> n))"

definition matchesFrom :: "string \<Rightarrow> Customer \<Rightarrow> bool" where
  "matchesFrom dateFrom c = (dateFrom = [] \<or> lastDate c \<ge> dateFrom)"

definition matchesTo :: "string \<Rightarrow> Customer \<Rightarrow> bool" where
  "matchesTo dateTo c = (dateTo = [] \<or> lastDate c \<le> dateTo @ ''T23:59:59'')"

definition filtered_customers ::
  "Platform \<Rightarrow> string \<Rightarrow> string \<Rightarrow> string \<Rightarrow> string \<Rightarrow> Customer list
     \<Rightarrow> Customer list" where
  "filtered_customers L search minOrders dateFrom dateTo cs =
     filter (\<lambda>c. matchesSearch_c L search c \<and> matchesMin minOrders c
                 \<and> matchesFrom dateFrom c \<and> matchesTo dateTo c) cs"

subsection \<open>Copy and CSV export\<close>

definition copyAll :: "Customer list \<Rightarrow> string" where
  "copyAll filtered = join '', '' (map email_c filtered)"

definition csv_header :: string where
  "csv_header = ''Email,Customer Name,Total Orders,Last Order Date'' @ [CHR 0x0A]"

definition csv_row :: "Platform \<Rightarrow> Customer \<Rightarrow> string" where
  "csv_row L c =
     email_c c @ '','' @ [CHR 0x22] @ name c @ [CHR 0x22] @ '','' @ show_nat (count c) @ '',''
     @ format L (newDate L (lastDate c)) ''yyyy-MM-dd''"

definition exportCSV :: "Platform \<Rightarrow> Customer list \<Rightarrow> string" where
  "exportCSV L filtered = csv_header @ join [CHR 0x0A] (map (csv_row L) filtered)"

section \<open>Notions used to state the properties\<close>

text \<open>
  The search predicate in the words of the specification: the search text is matched
  without regard to case against the name and the e-mail address, and as it stands
  against the phone number.
\<close>

definition claimed_matchesSearch :: "Platform \<Rightarrow> string \<Rightarrow> Order \<Rightarrow> bool" where
  "claimed_matchesSearch L searchText od =
     (searchText = []
      \<or> includes_str (toLowerCase L (customer_name od)) (toLowerCase L searchText)
      \<or> includes_str (toLowerCase L (email od)) (toLowerCase L searchText)
      \<or> includes_str (phone_number od) searchText)"

text \<open>
  What the accumulator is to hold under the key \<open>k\<close> once the orders \<open>os\<close> have been
  folded in; the invariant of the aggregation loop.
\<close>

definition row_ok :: "Order list \<Rightarrow> string \<Rightarrow> Customer \<Rightarrow> bool" where
  "row_ok os k c =
     (email_c c = k
      \<and> count c = length (filter (\<lambda>od. email od = k) os)
      \<and> (\<forall>od\<in>set os. email od = k \<longrightarrow> created_at od \<le> lastDate c)
      \<and> map_option customer_name (find (\<lambda>od. email od = k \<and> created_at od = lastDate c) os)
          = Some (name c))"

text \<open>The lines of a text: its pieces between the occurrences of a separator character.\<close>

fun split_on :: "char \<Rightarrow> string \<Rightarrow> string list" where
  "split_on sep [] = [[]]"
| "split_on sep (c # s) =
     (if c = sep then [] # split_on sep s
      else (case split_on sep s of [] \<Rightarrow> [[c]] | l # ls \<Rightarrow> (c # l) # ls))"

section \<open>A sample platform and sample rows\<close>

text \<open>
  The worked examples need one concrete platform. This one reads the ISO strings of the
  store as UTC (proleptic Gregorian calendar, whole seconds, the zone suffix ignored),
  prints in UTC, and lower-cases the letters \<open>A\<close> to \<open>Z\<close>, which is the platform's
  lower-casing on the ASCII text of the examples. The general theorems do not depend on
  it: each holds for every \<open>Platform\<close>.
\<close>

definition lower_char :: "char \<Rightarrow> char" where
  "lower_char c =
     (if CHR ''A'' \<le> c \<and> c \<le> CHR ''Z'' then char_of (of_char c + (32::nat)) else c)"

definition ascii_toLowerCase :: "string \<Rightarrow> string" where
  "ascii_toLowerCase s = map lower_char s"

definition days_from_civil :: "int \<Rightarrow> int \<Rightarrow> int \<Rightarrow> int" where
  "days_from_civil y m d =
     (let y' = (if m \<le> 2 then y - 1 else y);
          era = y' div 400;
          yoe = y' - era * 400;
          doy = (153 * (if m > 2 then m - 3 else m + 9) + 2) div 5 + d - 1;
          doe = yoe * 365 + yoe div 4 - yoe div 100 + doy
      in era * 146097 + doe - 719468)"

definition civil_from_days :: "int \<Rightarrow> int \<times> int \<times> int" where
  "civil_from_days z =
     (let z' = z + 719468;
          era = z' div 146097;
          doe = z' - era * 146097;
          yoe = (doe - doe div 1460 + doe div 36524 - doe div 146096) div 365;
          doy = doe - (365 * yoe + yoe div 4 - yoe div 100);
          mp = (5 * doy + 2) div 153;
          d = doy - (153 * mp + 2) div 5 + 1;
          m = (if mp < 10 then mp + 3 else mp - 9);
          y = yoe + era * 400
      in (if m \<le> 2 then y + 1 else y, m, d))"

definition digits_val :: "string \<Rightarrow> int" where
  "digits_val s = foldl (\<lambda>acc c. acc * 10 + digit_val c) 0 s"

definition utc_newDate :: "string \<Rightarrow> int" where
  "utc_newDate s =
     (let day = days_from_civil (digits_val (take 4 s)) (digits_val (take 2 (drop 5 s)))
                  (digits_val (take 2 (drop 8 s)));
          secs = (if length s < 19 then 0
                  else digits_val (take 2 (drop 11 s)) * 3600
                       + digits_val (take 2 (drop 14 s)) * 60
                       + digits_val (take 2 (drop 17 s)))
      in (day * 86400 + secs) * 1000)"

definition pad2 :: "int \<Rightarrow> string" where
  "pad2 n = (if n < 10 then ''0'' else []) @ show_int n"

definition month_name :: "int \<Rightarrow> string" where
  "month_name m =
     [''Jan'', ''Feb'', ''Mar'', ''Apr'', ''May'', ''Jun'', ''Jul'', ''Aug'', ''Sep'', ''Oct'',
      ''Nov'', ''Dec''] ! nat ((m - 1) mod 12)"

text \<open>The time of day as the pattern \<open>PPpp\<close> prints it: \<open>h:mm:ss a\<close>.\<close>

definition clock_of :: "int \<Rightarrow> string" where
  "clock_of secs =
     show_int (if secs div 3600 mod 12 = 0 then 12 else secs div 3600 mod 12) @ '':''
     @ pad2 (secs mod 3600 div 60) @ '':'' @ pad2 (secs mod 60)
     @ (if secs div 3600 < 12 then '' AM'' else '' PM'')"

fun format_civil :: "int \<times> int \<times> int \<Rightarrow> int \<Rightarrow> string \<Rightarrow> string" where
  "format_civil (y, m, d) secs pattern =
     (if pattern = ''yyyy-MM-dd'' then show_int y @ ''-'' @ pad2 m @ ''-'' @ pad2 d
      else if pattern = ''MMM d'' then month_name m @ '' '' @ show_int d
      else if pattern = ''MMM d, yyyy'' then month_name m @ '' '' @ show_int d @ '', '' @ show_int y
      else month_name m @ '' '' @ show_int d @ '', '' @ show_int y @ '', '' @ clock_of secs)"

definition utc_format :: "int \<Rightarrow> string \<Rightarrow> string" where
  "utc_format t pattern =
     format_civil (civil_from_days (t div 86400000)) (t div 1000 mod 86400) pattern"

definition utc_lib :: Platform where
  "utc_lib =
     \<lparr>newDate = utc_newDate, format = utc_format,
      subDays = (\<lambda>t n. t - int n * 86400000), toLowerCase = ascii_toLowerCase\<rparr>"

text \<open>
  Sample rows: two orders of one customer with the same pickup date, an order whose
  phone number has letters, an order under an address of the fixed data set, two orders
  whose names differ in the case of the first letter, and two aggregate rows.
\<close>

definition order_a :: Order where
  "order_a =
     \<lparr>order_id = ''a1'', customer_name = ''Old Name'', email = ''a@x.com'',
      phone_number = ''9840012345'', pickup_date = ''2026-01-10'', time_slot = ''Evening'',
      special_requests = None, status = ''Completed'',
      created_at = ''2026-01-01T00:00:00Z''\<rparr>"

definition order_b :: Order where
  "order_b =
     \<lparr>order_id = ''b2'', customer_name = ''New Name'', email = ''a@x.com'',
      phone_number = ''9840067890'', pickup_date = ''2026-01-10'', time_slot = ''Night'',
      special_requests = Some ''Jasmine only'', status = ''Pending'',
      created_at = ''2026-01-05T00:00:00Z''\<rparr>"

definition order_ext :: Order where
  "order_ext =
     \<lparr>order_id = ''7c1e'', customer_name = ''Ravi Kumar'', email = ''ravi@mail.com'',
      phone_number = ''555-0100 EXT 2'', pickup_date = ''2026-02-20'', time_slot = ''Morning'',
      special_requests = None, status = ''Pending'',
      created_at = ''2026-02-14T10:00:00+00:00''\<rparr>"

definition order_rahul :: Order where
  "order_rahul =
     \<lparr>order_id = ''c3'', customer_name = ''Rahul S'', email = ''rahul.sharma@email.com'',
      phone_number = ''9840055555'', pickup_date = ''2026-03-03'', time_slot = ''Morning'',
      special_requests = None, status = ''Pending'',
      created_at = ''2026-03-01T09:15:00+00:00''\<rparr>"

definition order_bob :: Order where
  "order_bob =
     \<lparr>order_id = ''d4'', customer_name = ''Bob'', email = ''bob@mail.com'',
      phone_number = ''9840011111'', pickup_date = ''2026-03-05'', time_slot = ''Night'',
      special_requests = None, status = ''Pending'',
      created_at = ''2026-03-02T08:00:00+00:00''\<rparr>"

definition order_alice :: Order where
  "order_alice =
     \<lparr>order_id = ''e5'', customer_name = ''alice'', email = ''alice@mail.com'',
      phone_number = ''9840022222'', pickup_date = ''2026-03-04'', time_slot = ''Evening'',
      special_requests = None, status = ''Pending'',
      created_at = ''2026-03-03T08:00:00+00:00''\<rparr>"

definition customer_ax :: Customer where
  "customer_ax =
     \<lparr>email_c = ''a@x.com'', name = ''New Name'', count = 2,
      lastDate = ''2026-01-05T00:00:00Z''\<rparr>"

definition customer_late :: Customer where
  "customer_late =
     \<lparr>email_c = ''late@x.com'', name = ''Late Order'', count = 1,
      lastDate = ''2026-02-14T23:59:59.482113+00:00''\<rparr>"

section \<open>Properties of the pagination\<close>

lemma totalPages_div: "totalPages xs = (length xs + 9) div 10"
proof -
  have "\<lceil>(of_nat (length xs) :: rat) / of_nat 10\<rceil> = \<lceil>(of_int (int (length xs)) :: rat) / of_int 10\<rceil>"
    by simp
  also have "\<dots> = - ((- int (length xs)) div 10)"
    unfolding ceiling_divide_eq_div by simp
  finally show ?thesis
    unfolding totalPages_def PAGE_SIZE_def by (simp; linarith)
qed

lemma totalPages_ceiling: "int (totalPages xs) = \<lceil>real (length xs) / 10\<rceil>"
proof -
  have "\<lceil>real (length xs) / 10\<rceil> = \<lceil>(of_int (int (length xs)) :: real) / of_int 10\<rceil>"
    by simp
  also have "\<dots> = - ((- int (length xs)) div 10)"
    unfolding ceiling_divide_eq_div by simp
  finally show ?thesis
    unfolding totalPages_div by linarith
qed

lemma paginated_take_drop: "paginated xs i = take 10 (drop (i * 10) xs)"
  by (simp add: paginated_def slice_def PAGE_SIZE_def)

lemma take_drop_nth: "take n (drop m xs) = map (\<lambda>k. xs ! k) [m ..< min (m + n) (length xs)]"
proof (rule nth_equalityI)
  show "length (take n (drop m xs)) = length (map (\<lambda>k. xs ! k) [m ..< min (m + n) (length xs)])"
    by (auto simp: min_def)
next
  fix i
  assume "i < length (take n (drop m xs))"
  then have a: "i < n" "m + i < length xs"
    by auto
  then have "i < min (m + n) (length xs) - m"
    by simp
  then have "map (\<lambda>k. xs ! k) [m ..< min (m + n) (length xs)] ! i = xs ! (m + i)"
    by (rule nth_map_upt)
  then show "take n (drop m xs) ! i = map (\<lambda>k. xs ! k) [m ..< min (m + n) (length xs)] ! i"
    using a by simp
qed

lemma concat_chunks:
  "length xs \<le> n * 10 \<Longrightarrow> concat (map (\<lambda>i. take 10 (drop (i * 10) xs)) [0..<n]) = xs"
proof (induction n arbitrary: xs)
  case 0
  then show ?case by simp
next
  case (Suc n)
  have "concat (map (\<lambda>i. take 10 (drop (i * 10) xs)) [0..<Suc n]) =
     take 10 xs @ concat (map (\<lambda>i. take 10 (drop (i * 10) (drop 10 xs))) [0..<n])"
    unfolding upt_conv_Cons[OF zero_less_Suc] map_Suc_upt[symmetric]
    by (simp add: o_def add.commute)
  also have "\<dots> = take 10 xs @ drop 10 xs"
    using Suc.IH[of "drop 10 xs"] Suc.prems by simp
  finally show ?case by simp
qed

text \<open>
  Claim C3. For a filtered and sorted list of \<open>N\<close> elements the number of pages is
  \<open>\<lceil>N / 10\<rceil>\<close>; page \<open>i\<close> holds the elements at the indices from \<open>10 i\<close> up to, and
  not including, \<open>10 i + 10\<close> (as far as the list reaches); every page before the last
  has ten elements; and the pages \<open>0, \<dots>, \<lceil>N / 10\<rceil> - 1\<close> in a row are the list itself.
\<close>

theorem pagination_covers:
  "int (totalPages xs) = \<lceil>real (length xs) / 10\<rceil>
   \<and> (\<forall>i. paginated xs i = map (\<lambda>k. xs ! k) [i * 10 ..< min (i * 10 + 10) (length xs)])
   \<and> (\<forall>i. Suc i < totalPages xs \<longrightarrow> length (paginated xs i) = 10)
   \<and> concat (map (paginated xs) [0..<totalPages xs]) = xs"
proof (intro conjI allI impI)
  show "int (totalPages xs) = \<lceil>real (length xs) / 10\<rceil>"
    by (rule totalPages_ceiling)
next
  fix i
  show "paginated xs i = map (\<lambda>k. xs ! k) [i * 10 ..< min (i * 10 + 10) (length xs)]"
    unfolding paginated_take_drop by (rule take_drop_nth)
next
  fix i
  assume "Suc i < totalPages xs"
  then have "i * 10 + 10 \<le> length xs"
    unfolding totalPages_div by linarith
  then show "length (paginated xs i) = 10"
    unfolding paginated_take_drop by simp
next
  have "length xs \<le> totalPages xs * 10"
    unfolding totalPages_div by linarith
  then have "concat (map (\<lambda>i. take 10 (drop (i * 10) xs)) [0..<totalPages xs]) = xs"
    by (rule concat_chunks)
  moreover have "paginated xs = (\<lambda>i. take 10 (drop (i * 10) xs))"
    by (rule ext) (rule paginated_take_drop)
  ultimately show "concat (map (paginated xs) [0..<totalPages xs]) = xs"
    by simp
qed

theorem pagination_covers_witness:
  "Suc 1 < totalPages [1..<26::nat]
   \<and> totalPages [1..<26::nat] = 3
   \<and> length (paginated [1..<26::nat] 1) = 10
   \<and> paginated [1..<26::nat] 2 = [21, 22, 23, 24, 25]
   \<and> concat (map (paginated [1..<26::nat]) [0..<totalPages [1..<26::nat]]) = [1..<26]"
proof -
  have t: "totalPages [1..<26::nat] = 3"
    by code_simp
  have p: "paginated [1..<26::nat] 2 = [21, 22, 23, 24, 25]"
    by code_simp
  have h: "Suc 1 < totalPages [1..<26::nat]"
    unfolding t by simp
  from pagination_covers [of "[1..<26::nat]"] h t p show ?thesis
    by blast
qed

section \<open>Properties of the order filter\<close>

lemma startsWith_iff: "startsWith s q \<longleftrightarrow> (\<exists>ss. s = q @ ss)"
  by (induction s q rule: startsWith.induct) auto

lemma includes_str_iff: "includes_str s q \<longleftrightarrow> (\<exists>ps ss. s = ps @ q @ ss)"
proof (induction s)
  case Nil
  then show ?case by auto
next
  case (Cons d s)
  show ?case
  proof
    assume "includes_str (d # s) q"
    then consider "startsWith (d # s) q" | "includes_str s q"
      by auto
    then show "\<exists>ps ss. d # s = ps @ q @ ss"
    proof cases
      case 1
      then obtain ss where "d # s = q @ ss"
        using startsWith_iff by blast
      then have "d # s = [] @ q @ ss"
        by simp
      then show ?thesis by blast
    next
      case 2
      then obtain ps ss where "s = ps @ q @ ss"
        using Cons.IH by blast
      then have "d # s = (d # ps) @ q @ ss"
        by simp
      then show ?thesis by blast
    qed
  next
    assume "\<exists>ps ss. d # s = ps @ q @ ss"
    then obtain ps ss where e: "d # s = ps @ q @ ss"
      by blast
    show "includes_str (d # s) q"
    proof (cases ps)
      case Nil
      then have "startsWith (d # s) q"
        using e startsWith_iff by auto
      then show ?thesis by simp
    next
      case (Cons p ps')
      then have "s = ps' @ q @ ss"
        using e by simp
      then have "includes_str s q"
        using Cons.IH by blast
      then show ?thesis by simp
    qed
  qed
qed

text \<open>What the filter keeps, with \<open>includes\<close> spelled out as containment of a block.\<close>

lemma filtered_orders_kept:
  "filtered_orders L search statusFilter dateFilter orders =
     filter (\<lambda>od.
        (toLowerCase L search = []
         \<or> (\<exists>ps ss. toLowerCase L (customer_name od) = ps @ toLowerCase L search @ ss)
         \<or> (\<exists>ps ss. toLowerCase L (email od) = ps @ toLowerCase L search @ ss)
         \<or> (\<exists>ps ss. phone_number od = ps @ toLowerCase L search @ ss))
        \<and> (statusFilter = ''all'' \<or> status od = statusFilter)
        \<and> (dateFilter = [] \<or> pickup_date od = dateFilter)) orders"
  unfolding filtered_orders_def matchesSearch_def matchesStatus_def matchesDate_def Let_def
    includes_str_iff
  by (rule refl)

text \<open>
  Claim C1 asks that no order satisfying the three predicates be excluded, the search
  predicate being a match of the search text against the name or the e-mail address
  without regard to case, or against the phone number as it stands. The order
  \<open>order_ext\<close> has the phone number \<open>555-0100 EXT 2\<close>. With the search text \<open>EXT\<close>, the
  status filter \<open>all\<close> and no date filter it satisfies the three predicates as the claim
  words them, yet the filter drops it: the phone number is searched for the lower-cased
  text \<open>ext\<close> and is itself not lower-cased, so neither \<open>EXT\<close> nor \<open>ext\<close> finds it, while
  the name, which is lower-cased on both sides, is found by \<open>RAVI\<close>.
\<close>

theorem phone_capitals_never_found:
  "claimed_matchesSearch utc_lib ''EXT'' order_ext \<and> matchesStatus ''all'' order_ext
   \<and> matchesDate [] order_ext
   \<and> filtered_orders utc_lib ''EXT'' ''all'' [] [order_ext] = []
   \<and> filtered_orders utc_lib ''ext'' ''all'' [] [order_ext] = []
   \<and> filtered_orders utc_lib ''RAVI'' ''all'' [] [order_ext] = [order_ext]"
  by code_simp

section \<open>Properties of the sort\<close>

text \<open>
  The sort of the model is the stable sort: ascending it is \<open>sort_key\<close> of the library,
  which is the only stable rearrangement in key order; descending it is the mirror image
  of that on the reversed list.
\<close>

lemma mset_insort_cmp: "mset (insort_cmp c x ys) = add_mset x (mset ys)"
  by (induction ys) auto

lemma array_sort_Cons: "array_sort c (x # xs) = insort_cmp c x (array_sort c xs)"
  by (simp add: array_sort_def)

lemma array_sort_Nil: "array_sort c [] = []"
  by (simp add: array_sort_def)

lemma mset_array_sort: "mset (array_sort c xs) = mset xs"
  by (induction xs) (simp_all add: array_sort_Nil array_sort_Cons mset_insort_cmp)

lemma set_insort_cmp: "set (insort_cmp c x ys) = insert x (set ys)"
  using mset_insort_cmp [of c x ys] by (metis set_mset_add_mset_insert set_mset_mset)

lemma filter_insort_cmp:
  assumes "\<And>y. y \<in> set ys \<Longrightarrow> P x \<Longrightarrow> P y \<Longrightarrow> c x y \<le> 0"
  shows "filter P (insort_cmp c x ys) = (if P x then x # filter P ys else filter P ys)"
  using assms by (induction ys) auto

lemma array_sort_stable:
  assumes "\<And>x y. kf x = kf y \<Longrightarrow> c x y \<le> 0"
  shows "filter (\<lambda>y. kf y = k) (array_sort c xs) = filter (\<lambda>y. kf y = k) xs"
proof (induction xs)
  case Nil
  show ?case by (simp add: array_sort_Nil)
next
  case (Cons x xs)
  have "filter (\<lambda>y. kf y = k) (insort_cmp c x (array_sort c xs)) =
      (if kf x = k then x # filter (\<lambda>y. kf y = k) (array_sort c xs)
       else filter (\<lambda>y. kf y = k) (array_sort c xs))"
    by (rule filter_insort_cmp) (simp add: assms)
  then show ?case
    using Cons.IH by (simp add: array_sort_Cons)
qed

lemma insort_cmp_asc:
  fixes kf :: "'a \<Rightarrow> 'k::linorder"
  assumes "\<And>x y. (c x y \<le> 0) = (kf x \<le> kf y)"
  shows "insort_cmp c x ys = insort_key kf x ys"
  by (induction ys) (simp_all add: assms)

lemma array_sort_asc:
  fixes kf :: "'a \<Rightarrow> 'k::linorder"
  assumes "\<And>x y. (c x y \<le> 0) = (kf x \<le> kf y)"
  shows "array_sort c xs = sort_key kf xs"
  by (induction xs) (simp_all add: array_sort_Nil array_sort_Cons insort_cmp_asc [OF assms])

lemma sorted_insort_cmp_desc:
  fixes kf :: "'a \<Rightarrow> 'k::linorder"
  assumes r: "\<And>x y. (c x y \<le> 0) = (kf y \<le> kf x)"
    and s: "sorted_wrt (\<lambda>a b. kf b \<le> kf a) ys"
  shows "sorted_wrt (\<lambda>a b. kf b \<le> kf a) (insort_cmp c x ys)"
  using s
proof (induction ys)
  case Nil
  show ?case by simp
next
  case (Cons y ys)
  show ?case
  proof (cases "c x y \<le> 0")
    case True
    then have "kf y \<le> kf x"
      using r by simp
    moreover have "\<forall>z\<in>set ys. kf z \<le> kf y"
      using Cons.prems by simp
    ultimately show ?thesis
      using True Cons.prems by auto
  next
    case False
    then have "kf x \<le> kf y"
      using r [of x y] by simp
    then show ?thesis
      using False Cons by (auto simp: set_insort_cmp)
  qed
qed

lemma sorted_array_sort_desc:
  fixes kf :: "'a \<Rightarrow> 'k::linorder"
  assumes r: "\<And>x y. (c x y \<le> 0) = (kf y \<le> kf x)"
  shows "sorted (rev (map kf (array_sort c xs)))"
proof -
  have "sorted_wrt (\<lambda>a b. kf b \<le> kf a) (array_sort c xs)"
    by (induction xs) (simp_all add: array_sort_Nil array_sort_Cons sorted_insort_cmp_desc [OF r])
  then show ?thesis
    by (simp add: sorted_wrt_rev sorted_wrt_map rev_map [symmetric])
qed

lemma array_sort_desc_rev:
  fixes kf :: "'a \<Rightarrow> 'k::linorder"
  assumes r: "\<And>x y. (c x y \<le> 0) = (kf y \<le> kf x)"
  shows "rev (array_sort c xs) = sort_key kf (rev xs)"
proof (rule properties_for_sort_key [symmetric])
  show "mset (rev (array_sort c xs)) = mset (rev xs)"
    by (simp add: mset_array_sort)
next
  fix k
  assume "k \<in> set (rev (array_sort c xs))"
  have "filter (\<lambda>y. kf y = kf k) (array_sort c xs) = filter (\<lambda>y. kf y = kf k) xs"
    by (rule array_sort_stable) (simp add: r)
  then have "filter (\<lambda>y. kf k = kf y) (array_sort c xs) = filter (\<lambda>y. kf k = kf y) xs"
    by (simp add: eq_commute)
  then show "filter (\<lambda>x. kf k = kf x) (rev (array_sort c xs)) = filter (\<lambda>x. kf k = kf x) (rev xs)"
    by (simp add: rev_filter [symmetric])
next
  show "sorted (map kf (rev (array_sort c xs)))"
    using sorted_array_sort_desc [of c kf xs, OF r] by (simp add: rev_map)
qed

lemma filter_distinct_key:
  "distinct (map kf xs) \<Longrightarrow> k \<in> set xs \<Longrightarrow> filter (\<lambda>x. kf k = kf x) xs = [k]"
proof (induction xs)
  case Nil
  then show ?case by simp
next
  case (Cons x xs)
  show ?case
  proof (cases "k = x")
    case True
    have "kf x \<notin> kf ` set xs"
      using Cons.prems by simp
    then have "filter (\<lambda>y. kf x = kf y) xs = []"
      by (auto simp: filter_empty_conv)
    then show ?thesis
      using True by simp
  next
    case False
    then have m: "k \<in> set xs"
      using Cons.prems by simp
    then have "kf k \<in> kf ` set xs"
      by (rule imageI)
    moreover have "kf x \<notin> kf ` set xs"
      using Cons.prems by simp
    ultimately have "kf k \<noteq> kf x"
      by metis
    moreover have "filter (\<lambda>y. kf k = kf y) xs = [k]"
      using Cons.IH Cons.prems m by simp
    ultimately show ?thesis
      by simp
  qed
qed

lemma sort_key_rev_distinct:
  fixes kf :: "'a \<Rightarrow> 'k::linorder"
  assumes d: "distinct (map kf xs)"
  shows "sort_key kf (rev xs) = sort_key kf xs"
proof (rule properties_for_sort_key [symmetric])
  show "mset (sort_key kf (rev xs)) = mset xs"
    by simp
next
  fix k
  assume k: "k \<in> set (sort_key kf (rev xs))"
  have "mset (map kf (sort_key kf (rev xs))) = mset (map kf xs)"
    by simp
  then have "distinct (map kf (sort_key kf (rev xs)))"
    using d by (metis mset_eq_imp_distinct_iff)
  then have "filter (\<lambda>x. kf k = kf x) (sort_key kf (rev xs)) = [k]"
    using k by (rule filter_distinct_key)
  moreover have "filter (\<lambda>x. kf k = kf x) xs = [k]"
    using d k by (intro filter_distinct_key) simp_all
  ultimately show "filter (\<lambda>x. kf k = kf x) (sort_key kf (rev xs)) = filter (\<lambda>x. kf k = kf x) xs"
    by simp
next
  show "sorted (map kf (sort_key kf (rev xs)))"
    by simp
qed
lemma val_less_irrefl: "\<not> val_less v v"
  by (cases v) simp_all

lemma compareFn_equal_keys:
  "sortVal L f x = sortVal L f y \<Longrightarrow> compareFn L f d x y \<le> 0"
  by (simp add: compareFn_def val_less_irrefl)

lemma compareFn_asc_num:
  assumes "\<And>od. sortVal L f od = Num (kf od)"
  shows "(compareFn L f asc x y \<le> 0) = (kf x \<le> kf y)"
  by (auto simp: compareFn_def assms)

lemma compareFn_desc_num:
  assumes "\<And>od. sortVal L f od = Num (kf od)"
  shows "(compareFn L f desc x y \<le> 0) = (kf y \<le> kf x)"
  by (auto simp: compareFn_def assms)

lemma compareFn_asc_str:
  assumes "\<And>od. sortVal L f od = Str (kf od)"
  shows "(compareFn L f asc x y \<le> 0) = (kf x \<le> kf y)"
  by (auto simp: compareFn_def assms)

lemma compareFn_desc_str:
  assumes "\<And>od. sortVal L f od = Str (kf od)"
  shows "(compareFn L f desc x y \<le> 0) = (kf y \<le> kf x)"
  by (auto simp: compareFn_def assms)

lemma sorted_orders_asc_num:
  assumes "\<And>od. sortVal L f od = Num (kf od)"
  shows "sorted_orders L f asc xs = sort_key kf xs"
  unfolding sorted_orders_def by (rule array_sort_asc) (rule compareFn_asc_num [OF assms])

lemma sorted_orders_asc_str:
  assumes "\<And>od. sortVal L f od = Str (kf od)"
  shows "sorted_orders L f asc xs = sort_key kf xs"
  unfolding sorted_orders_def by (rule array_sort_asc) (rule compareFn_asc_str [OF assms])

lemma sorted_orders_desc_num:
  assumes "\<And>od. sortVal L f od = Num (kf od)"
  shows "rev (sorted_orders L f desc xs) = sort_key kf (rev xs)"
  unfolding sorted_orders_def by (rule array_sort_desc_rev) (rule compareFn_desc_num [OF assms])

lemma sorted_orders_desc_str:
  assumes "\<And>od. sortVal L f od = Str (kf od)"
  shows "rev (sorted_orders L f desc xs) = sort_key kf (rev xs)"
  unfolding sorted_orders_def by (rule array_sort_desc_rev) (rule compareFn_desc_str [OF assms])

lemma desc_is_rev_asc_num:
  assumes k: "\<And>od. sortVal L f od = Num (kf od)"
  shows "sorted_orders L f desc xs = rev (sorted_orders L f asc (rev xs))"
proof -
  have "rev (sorted_orders L f desc xs) = sorted_orders L f asc (rev xs)"
    by (simp add: sorted_orders_desc_num [OF k] sorted_orders_asc_num [OF k])
  then show ?thesis
    by (metis rev_rev_ident)
qed

lemma desc_is_rev_asc_str:
  assumes k: "\<And>od. sortVal L f od = Str (kf od)"
  shows "sorted_orders L f desc xs = rev (sorted_orders L f asc (rev xs))"
proof -
  have "rev (sorted_orders L f desc xs) = sorted_orders L f asc (rev xs)"
    by (simp add: sorted_orders_desc_str [OF k] sorted_orders_asc_str [OF k])
  then show ?thesis
    by (metis rev_rev_ident)
qed

lemma asc_rev_distinct_num:
  assumes k: "\<And>od. sortVal L f od = Num (kf od)"
    and d: "distinct (map (sortVal L f) xs)"
  shows "sorted_orders L f asc (rev xs) = sorted_orders L f asc xs"
proof -
  have "map (sortVal L f) xs = map Num (map kf xs)"
    by (simp add: k)
  then have "distinct (map kf xs)"
    using d by (metis distinct_map)
  then show ?thesis
    by (simp add: sorted_orders_asc_num [OF k] sort_key_rev_distinct)
qed

lemma asc_rev_distinct_str:
  assumes k: "\<And>od. sortVal L f od = Str (kf od)"
    and d: "distinct (map (sortVal L f) xs)"
  shows "sorted_orders L f asc (rev xs) = sorted_orders L f asc xs"
proof -
  have "map (sortVal L f) xs = map Str (map kf xs)"
    by (simp add: k)
  then have "distinct (map kf xs)"
    using d by (metis distinct_map)
  then show ?thesis
    by (simp add: sorted_orders_asc_str [OF k] sort_key_rev_distinct)
qed

lemma desc_is_rev_asc: "sorted_orders L f desc xs = rev (sorted_orders L f asc (rev xs))"
proof (cases f)
  case SF_created_at
  show ?thesis
    unfolding SF_created_at by (rule desc_is_rev_asc_num) simp
next
  case SF_pickup_date
  show ?thesis
    unfolding SF_pickup_date by (rule desc_is_rev_asc_num) simp
next
  case SF_customer_name
  show ?thesis
    unfolding SF_customer_name by (rule desc_is_rev_asc_str) simp
next
  case SF_phone_number
  show ?thesis
    unfolding SF_phone_number by (rule desc_is_rev_asc_str) simp
next
  case SF_time_slot
  show ?thesis
    unfolding SF_time_slot by (rule desc_is_rev_asc_str) simp
qed

lemma asc_rev_distinct:
  assumes "distinct (map (sortVal L f) xs)"
  shows "sorted_orders L f asc (rev xs) = sorted_orders L f asc xs"
proof (cases f)
  case SF_created_at
  show ?thesis
    using assms unfolding SF_created_at by (intro asc_rev_distinct_num) simp_all
next
  case SF_pickup_date
  show ?thesis
    using assms unfolding SF_pickup_date by (intro asc_rev_distinct_num) simp_all
next
  case SF_customer_name
  show ?thesis
    using assms unfolding SF_customer_name by (intro asc_rev_distinct_str) simp_all
next
  case SF_phone_number
  show ?thesis
    using assms unfolding SF_phone_number by (intro asc_rev_distinct_str) simp_all
next
  case SF_time_slot
  show ?thesis
    using assms unfolding SF_time_slot by (intro asc_rev_distinct_str) simp_all
qed

lemma sorted_orders_stable:
  "filter (\<lambda>od. sortVal L f od = k) (sorted_orders L f d xs) = filter (\<lambda>od. sortVal L f od = k) xs"
  unfolding sorted_orders_def by (rule array_sort_stable) (rule compareFn_equal_keys)

lemma mset_sorted_orders: "mset (sorted_orders L f d xs) = mset xs"
  by (simp add: sorted_orders_def mset_array_sort)

lemma sorted_desc_num:
  assumes k: "\<And>od. sortVal L f od = Num (kf od)"
  shows "sorted (rev (map kf (sorted_orders L f desc xs)))"
  unfolding sorted_orders_def by (rule sorted_array_sort_desc) (rule compareFn_desc_num [OF k])

lemma sorted_desc_str:
  assumes k: "\<And>od. sortVal L f od = Str (kf od)"
  shows "sorted (rev (map kf (sorted_orders L f desc xs)))"
  unfolding sorted_orders_def by (rule sorted_array_sort_desc) (rule compareFn_desc_str [OF k])

lemma sorted_asc_num:
  assumes k: "\<And>od. sortVal L f od = Num (kf od)"
  shows "sorted (map kf (sorted_orders L f asc xs))"
  by (simp add: sorted_orders_asc_num [OF k])

lemma sorted_asc_str:
  assumes k: "\<And>od. sortVal L f od = Str (kf od)"
  shows "sorted (map kf (sorted_orders L f asc xs))"
  by (simp add: sorted_orders_asc_str [OF k])

text \<open>
  Claim C4, as stated, fails: \<open>order_a\<close> and \<open>order_b\<close> have the same pickup date, so a
  stable sort by pickup date leaves them in their input order in both directions, and
  the descending result is not the reverse of the ascending one.
\<close>

theorem sort_reverse_counterexample:
  "sorted_orders utc_lib SF_pickup_date desc [order_a, order_b] = [order_a, order_b]
   \<and> rev (sorted_orders utc_lib SF_pickup_date asc [order_a, order_b]) = [order_b, order_a]
   \<and> sorted_orders utc_lib SF_pickup_date desc [order_a, order_b]
       \<noteq> rev (sorted_orders utc_lib SF_pickup_date asc [order_a, order_b])"
  by code_simp

text \<open>
  Claim C4, amended. In either direction the sort is stable: the orders with any one
  sort key appear in the output in their input order. Sorting descending yields the
  reverse of sorting the reversed input ascending; so it yields exactly the reverse of
  the ascending result whenever no two orders of the list have equal sort keys.
\<close>

theorem sort_stable_and_reverse:
  "filter (\<lambda>od. sortVal L f od = k) (sorted_orders L f d xs) = filter (\<lambda>od. sortVal L f od = k) xs
   \<and> sorted_orders L f desc xs = rev (sorted_orders L f asc (rev xs))
   \<and> (distinct (map (sortVal L f) xs)
        \<longrightarrow> sorted_orders L f desc xs = rev (sorted_orders L f asc xs))"
proof (intro conjI impI)
  show "filter (\<lambda>od. sortVal L f od = k) (sorted_orders L f d xs)
      = filter (\<lambda>od. sortVal L f od = k) xs"
    by (rule sorted_orders_stable)
next
  show "sorted_orders L f desc xs = rev (sorted_orders L f asc (rev xs))"
    by (rule desc_is_rev_asc)
next
  assume "distinct (map (sortVal L f) xs)"
  then have "sorted_orders L f asc (rev xs) = sorted_orders L f asc xs"
    by (rule asc_rev_distinct)
  then show "sorted_orders L f desc xs = rev (sorted_orders L f asc xs)"
    using desc_is_rev_asc [of L f xs] by simp
qed

theorem sort_stable_and_reverse_witness:
  "distinct (map (sortVal utc_lib SF_created_at) [order_a, order_ext, order_b])
   \<and> sorted_orders utc_lib SF_created_at asc [order_a, order_ext, order_b]
       = [order_a, order_b, order_ext]
   \<and> sorted_orders utc_lib SF_created_at desc [order_a, order_ext, order_b]
       = rev (sorted_orders utc_lib SF_created_at asc [order_a, order_ext, order_b])"
proof -
  have h: "distinct (map (sortVal utc_lib SF_created_at) [order_a, order_ext, order_b])"
    by code_simp
  have a: "sorted_orders utc_lib SF_created_at asc [order_a, order_ext, order_b]
      = [order_a, order_b, order_ext]"
    by code_simp
  from sort_stable_and_reverse [of utc_lib SF_created_at _ _ "[order_a, order_ext, order_b]"] h a
  show ?thesis
    by blast
qed

text \<open>
  Claim C6. For each of the five sort fields the sorted list is a rearrangement of the
  filtered list, ordered by the field's own order: the parsed instant (a number) for the
  created timestamp and the pickup date, the lower-cased text for the customer name, the
  text as stored for the phone number and the time slot; ascending puts the keys in
  non-decreasing order, descending in non-increasing order. In the example \<open>Bob\<close> is
  before \<open>alice\<close> as a string, and after it in the sort by name.
\<close>

theorem sort_by_each_field:
  "mset (sorted_orders L f d xs) = mset xs
   \<and> sorted (map (\<lambda>od. newDate L (created_at od)) (sorted_orders L SF_created_at asc xs))
   \<and> sorted (rev (map (\<lambda>od. newDate L (created_at od)) (sorted_orders L SF_created_at desc xs)))
   \<and> sorted (map (\<lambda>od. newDate L (pickup_date od)) (sorted_orders L SF_pickup_date asc xs))
   \<and> sorted (rev (map (\<lambda>od. newDate L (pickup_date od)) (sorted_orders L SF_pickup_date desc xs)))
   \<and> sorted (map (\<lambda>od. toLowerCase L (customer_name od)) (sorted_orders L SF_customer_name asc xs))
   \<and> sorted (rev (map (\<lambda>od. toLowerCase L (customer_name od))
                  (sorted_orders L SF_customer_name desc xs)))
   \<and> sorted (map phone_number (sorted_orders L SF_phone_number asc xs))
   \<and> sorted (rev (map phone_number (sorted_orders L SF_phone_number desc xs)))
   \<and> sorted (map time_slot (sorted_orders L SF_time_slot asc xs))
   \<and> sorted (rev (map time_slot (sorted_orders L SF_time_slot desc xs)))"
proof (intro conjI)
  show "mset (sorted_orders L f d xs) = mset xs"
    by (rule mset_sorted_orders)
  show "sorted (map (\<lambda>od. newDate L (created_at od)) (sorted_orders L SF_created_at asc xs))"
    by (rule sorted_asc_num) simp
  show "sorted (rev (map (\<lambda>od. newDate L (created_at od)) (sorted_orders L SF_created_at desc xs)))"
    by (rule sorted_desc_num) simp
  show "sorted (map (\<lambda>od. newDate L (pickup_date od)) (sorted_orders L SF_pickup_date asc xs))"
    by (rule sorted_asc_num) simp
  show "sorted (rev (map (\<lambda>od. newDate L (pickup_date od)) (sorted_orders L SF_pickup_date desc xs)))"
    by (rule sorted_desc_num) simp
  show "sorted (map (\<lambda>od. toLowerCase L (customer_name od)) (sorted_orders L SF_customer_name asc xs))"
    by (rule sorted_asc_str) simp
  show "sorted (rev (map (\<lambda>od. toLowerCase L (customer_name od))
                  (sorted_orders L SF_customer_name desc xs)))"
    by (rule sorted_desc_str) simp
  show "sorted (map phone_number (sorted_orders L SF_phone_number asc xs))"
    by (rule sorted_asc_str) simp
  show "sorted (rev (map phone_number (sorted_orders L SF_phone_number desc xs)))"
    by (rule sorted_desc_str) simp
  show "sorted (map time_slot (sorted_orders L SF_time_slot asc xs))"
    by (rule sorted_asc_str) simp
  show "sorted (rev (map time_slot (sorted_orders L SF_time_slot desc xs)))"
    by (rule sorted_desc_str) simp
qed

theorem sort_by_each_field_witness:
  "customer_name order_bob < customer_name order_alice
   \<and> sorted_orders utc_lib SF_customer_name asc [order_bob, order_alice, order_ext]
       = [order_alice, order_bob, order_ext]
   \<and> sorted_orders utc_lib SF_customer_name desc [order_bob, order_alice, order_ext]
       = [order_ext, order_bob, order_alice]
   \<and> sorted (map (\<lambda>od. toLowerCase utc_lib (customer_name od))
         [order_alice, order_bob, order_ext])
   \<and> sorted_orders utc_lib SF_created_at asc [order_bob, order_alice, order_ext]
       = [order_ext, order_bob, order_alice]
   \<and> sorted_orders utc_lib SF_pickup_date desc [order_bob, order_alice, order_ext]
       = [order_bob, order_alice, order_ext]
   \<and> sorted_orders utc_lib SF_phone_number asc [order_bob, order_alice, order_ext]
       = [order_ext, order_bob, order_alice]
   \<and> sorted_orders utc_lib SF_time_slot asc [order_bob, order_alice, order_ext]
       = [order_alice, order_ext, order_bob]"
proof -
  have lt: "customer_name order_bob < customer_name order_alice"
    by code_simp
  have na: "sorted_orders utc_lib SF_customer_name asc [order_bob, order_alice, order_ext]
      = [order_alice, order_bob, order_ext]"
    by code_simp
  have nd: "sorted_orders utc_lib SF_customer_name desc [order_bob, order_alice, order_ext]
      = [order_ext, order_bob, order_alice]"
    by code_simp
  have ca: "sorted_orders utc_lib SF_created_at asc [order_bob, order_alice, order_ext]
      = [order_ext, order_bob, order_alice]"
    by code_simp
  have pd: "sorted_orders utc_lib SF_pickup_date desc [order_bob, order_alice, order_ext]
      = [order_bob, order_alice, order_ext]"
    by code_simp
  have ph: "sorted_orders utc_lib SF_phone_number asc [order_bob, order_alice, order_ext]
      = [order_ext, order_bob, order_alice]"
    by code_simp
  have ts: "sorted_orders utc_lib SF_time_slot asc [order_bob, order_alice, order_ext]
      = [order_alice, order_ext, order_bob]"
    by code_simp
  from sort_by_each_field [of utc_lib _ _ "[order_bob, order_alice, order_ext]"]
  have "sorted (map (\<lambda>od. toLowerCase utc_lib (customer_name od))
      (sorted_orders utc_lib SF_customer_name asc [order_bob, order_alice, order_ext]))"
    by blast
  then have "sorted (map (\<lambda>od. toLowerCase utc_lib (customer_name od))
      [order_alice, order_bob, order_ext])"
    unfolding na .
  then show ?thesis
    using lt na nd ca pd ph ts by blast
qed

section \<open>Properties of the customer aggregation\<close>

lemma map_get_None_iff: "map_get m k = None \<longleftrightarrow> k \<notin> fst ` set m"
  by (induction m k rule: map_get.induct) auto

lemma map_get_Some_mem: "map_get m k = Some v \<Longrightarrow> (k, v) \<in> set m"
  by (induction m k rule: map_get.induct) (auto split: if_splits)

lemma map_get_of_mem: "distinct (map fst m) \<Longrightarrow> (k, v) \<in> set m \<Longrightarrow> map_get m k = Some v"
  by (induction m k rule: map_get.induct) (auto simp: rev_image_eqI)

lemma map_get_map_set: "map_get (map_set m k v) k' = (if k' = k then Some v else map_get m k')"
  by (induction m k v rule: map_set.induct) auto

lemma keys_map_set:
  "map fst (map_set m k v) = (if k \<in> fst ` set m then map fst m else map fst m @ [k])"
  by (induction m k v rule: map_set.induct) auto

lemma map_set_new: "k \<notin> fst ` set m \<Longrightarrow> map_set m k v = m @ [(k, v)]"
  by (induction m k v rule: map_set.induct) auto

lemma foldl_add_order_snoc:
  "foldl add_order [] (os @ [od]) = add_order (foldl add_order [] os) od"
  by simp

lemma find_snoc:
  "find P (xs @ [x]) = (case find P xs of None \<Rightarrow> (if P x then Some x else None) | Some y \<Rightarrow> Some y)"
  by (induction xs) auto

lemma keys_add_order:
  "map fst (add_order m od) =
     (if email od \<in> fst ` set m then map fst m else map fst m @ [email od])"
  by (simp add: add_order_def keys_map_set Let_def split: option.splits)

lemma map_get_add_order_other:
  "k \<noteq> email od \<Longrightarrow> map_get (add_order m od) k = map_get m k"
  by (simp add: add_order_def map_get_map_set Let_def split: option.splits)

lemma map_get_add_order_new:
  "map_get m (email od) = None \<Longrightarrow>
     map_get (add_order m od) (email od) =
       Some \<lparr>email_c = email od, name = customer_name od, count = 1, lastDate = created_at od\<rparr>"
  by (simp add: add_order_def map_get_map_set)

lemma map_get_add_order_existing:
  "map_get m (email od) = Some existing \<Longrightarrow>
     map_get (add_order m od) (email od) =
       Some (if created_at od > lastDate existing
             then existing\<lparr>count := count existing + 1, lastDate := created_at od,
                    name := customer_name od\<rparr>
             else existing\<lparr>count := count existing + 1\<rparr>)"
  by (simp add: add_order_def map_get_map_set Let_def)

lemma keys_foldl_distinct: "distinct (map fst (foldl add_order [] os))"
proof (induction os rule: rev_induct)
  case Nil
  show ?case by simp
next
  case (snoc od os)
  then show ?case
    by (simp add: keys_add_order)
qed

lemma keys_foldl_set: "fst ` set (foldl add_order [] os) = email ` set os"
proof (induction os rule: rev_induct)
  case Nil
  show ?case by simp
next
  case (snoc od os)
  have "set (map fst (add_order (foldl add_order [] os) od))
      = insert (email od) (set (map fst (foldl add_order [] os)))"
    unfolding keys_add_order by auto
  then show ?case
    using snoc by auto
qed

lemma find_snoc_keep:
  "map_option f (find P xs) = Some n \<Longrightarrow> map_option f (find P (xs @ [x])) = Some n"
  by (auto simp: find_snoc split: option.splits)

lemma find_snoc_new:
  "find P xs = None \<Longrightarrow> P x \<Longrightarrow> map_option f (find P (xs @ [x])) = Some (f x)"
  by (simp add: find_snoc)

lemma row_ok_other:
  assumes "row_ok os k c" and "k \<noteq> email od"
  shows "row_ok (os @ [od]) k c"
proof -
  have "map_option customer_name
      (find (\<lambda>od. email od = k \<and> created_at od = lastDate c) (os @ [od])) = Some (name c)"
    using assms by (intro find_snoc_keep) (simp add: row_ok_def)
  then show ?thesis
    using assms by (simp add: row_ok_def)
qed

lemma row_ok_first:
  assumes no: "\<forall>x\<in>set os. email x \<noteq> email od"
  shows "row_ok (os @ [od]) (email od)
     \<lparr>email_c = email od, name = customer_name od, count = 1, lastDate = created_at od\<rparr>"
proof -
  have f: "filter (\<lambda>x. email x = email od) os = []"
    using no by (simp add: filter_empty_conv)
  have "find (\<lambda>x. email x = email od \<and> created_at x = created_at od) os = None"
    using no by (auto simp: find_None_iff)
  then have "map_option customer_name
      (find (\<lambda>x. email x = email od \<and> created_at x = created_at od) (os @ [od]))
      = Some (customer_name od)"
    by (rule find_snoc_new) simp
  then show ?thesis
    using no by (simp add: row_ok_def f)
qed

lemma row_ok_newer:
  assumes ok: "row_ok os (email od) existing" and newer: "lastDate existing < created_at od"
  shows "row_ok (os @ [od]) (email od)
     (existing\<lparr>count := count existing + 1, lastDate := created_at od,
        name := customer_name od\<rparr>)"
proof -
  have b: "\<forall>x\<in>set os. email x = email od \<longrightarrow> created_at x \<le> lastDate existing"
    using ok by (simp add: row_ok_def)
  have le: "\<forall>x\<in>set os. email x = email od \<longrightarrow> created_at x \<le> created_at od"
  proof (intro ballI impI)
    fix x
    assume "x \<in> set os" "email x = email od"
    then have "created_at x \<le> lastDate existing"
      using b by simp
    then show "created_at x \<le> created_at od"
      using newer by (rule order.trans [OF _ less_imp_le])
  qed
  have "\<forall>x\<in>set os. \<not> (email x = email od \<and> created_at x = created_at od)"
  proof (intro ballI notI)
    fix x
    assume "x \<in> set os" "email x = email od \<and> created_at x = created_at od"
    then have "created_at od \<le> lastDate existing"
      using b by auto
    then show False
      using newer by simp
  qed
  then have "find (\<lambda>x. email x = email od \<and> created_at x = created_at od) os = None"
    by (simp add: find_None_iff)
  then have "map_option customer_name
      (find (\<lambda>x. email x = email od \<and> created_at x = created_at od) (os @ [od]))
      = Some (customer_name od)"
    by (rule find_snoc_new) simp
  then show ?thesis
    using ok le by (simp add: row_ok_def)
qed

lemma row_ok_older:
  assumes ok: "row_ok os (email od) existing" and older: "\<not> lastDate existing < created_at od"
  shows "row_ok (os @ [od]) (email od) (existing\<lparr>count := count existing + 1\<rparr>)"
proof -
  have "map_option customer_name
      (find (\<lambda>x. email x = email od \<and> created_at x = lastDate existing) (os @ [od]))
      = Some (name existing)"
    using ok by (intro find_snoc_keep) (simp add: row_ok_def)
  moreover have "created_at od \<le> lastDate existing"
    using older by simp
  ultimately show ?thesis
    using ok by (simp add: row_ok_def)
qed

lemma row_invariant:
  "map_get (foldl add_order [] os) k = Some c \<Longrightarrow> row_ok os k c"
proof (induction os arbitrary: c rule: rev_induct)
  case Nil
  then show ?case by simp
next
  case (snoc od os)
  let ?m = "foldl add_order [] os"
  have g: "map_get (add_order ?m od) k = Some c"
    using snoc.prems by simp
  show ?case
  proof (cases "k = email od")
    case False
    then have "map_get ?m k = Some c"
      using g by (simp add: map_get_add_order_other)
    then have "row_ok os k c"
      by (rule snoc.IH)
    then show ?thesis
      using False by (rule row_ok_other)
  next
    case True
    show ?thesis
    proof (cases "map_get ?m (email od)")
      case None
      then have "email od \<notin> email ` set os"
        using keys_foldl_set [of os] by (simp add: map_get_None_iff)
      then have no: "\<forall>x\<in>set os. email x \<noteq> email od"
        by (metis imageI)
      have "c = \<lparr>email_c = email od, name = customer_name od, count = 1,
          lastDate = created_at od\<rparr>"
        using g None True by (simp add: map_get_add_order_new)
      then show ?thesis
        using row_ok_first [OF no] True by simp
    next
      case (Some existing)
      then have ok: "row_ok os (email od) existing"
        using snoc.IH [of existing] True by simp
      show ?thesis
      proof (cases "lastDate existing < created_at od")
        case newer: True
        have "c = existing\<lparr>count := count existing + 1, lastDate := created_at od,
            name := customer_name od\<rparr>"
          using g Some True newer by (simp add: map_get_add_order_existing)
        then show ?thesis
          using row_ok_newer [OF ok newer] True by simp
      next
        case older: False
        have "c = existing\<lparr>count := count existing + 1\<rparr>"
          using g Some True older by (simp add: map_get_add_order_existing)
        then show ?thesis
          using row_ok_older [OF ok older] True by simp
      qed
    qed
  qed
qed

lemma customers_rows:
  "c \<in> set (customers os) \<Longrightarrow> map_get (foldl add_order [] os) (email_c c) = Some c"
proof -
  assume "c \<in> set (customers os)"
  then obtain k where k: "(k, c) \<in> set (foldl add_order [] os)"
    by (auto simp: customers_def map_values_def)
  then have g: "map_get (foldl add_order [] os) k = Some c"
    using keys_foldl_distinct by (simp add: map_get_of_mem)
  then have "email_c c = k"
    using row_invariant [of os k c] by (simp add: row_ok_def)
  then show ?thesis
    using g by simp
qed

lemma customers_emails: "map email_c (customers os) = map fst (foldl add_order [] os)"
proof -
  have "\<forall>p\<in>set (foldl add_order [] os). email_c (snd p) = fst p"
  proof
    fix p
    assume p: "p \<in> set (foldl add_order [] os)"
    then have "map_get (foldl add_order [] os) (fst p) = Some (snd p)"
      using keys_foldl_distinct by (simp add: map_get_of_mem)
    then show "email_c (snd p) = fst p"
      using row_invariant [of os "fst p" "snd p"] by (simp add: row_ok_def)
  qed
  then show ?thesis
    by (simp add: customers_def map_values_def)
qed

lemma customers_distinct: "distinct (map email_c (customers os))"
  by (simp add: customers_emails keys_foldl_distinct)

lemma customers_email_set: "set (map email_c (customers os)) = email ` set os"
  using keys_foldl_set [of os] by (simp add: customers_emails)

lemma customers_length: "length (customers os) = card (email ` set os)"
proof -
  have "length (customers os) = length (map email_c (customers os))"
    by simp
  also have "\<dots> = card (set (map email_c (customers os)))"
    using customers_distinct by (metis distinct_card)
  finally show ?thesis
    by (simp only: customers_email_set)
qed

text \<open>
  Claim C2. The aggregation yields one row per distinct e-mail address of the order
  set: the addresses of the rows are pairwise different and are exactly the addresses
  of the orders, so there are as many rows as distinct addresses. In the row of an
  address, \<open>count\<close> is the number of orders with that address, \<open>lastDate\<close> is the greatest
  created timestamp among them in the order of strings, and \<open>name\<close> is the customer name
  of the order bearing that timestamp (the first such order of the set, if several do).
\<close>

theorem customers_aggregate:
  "distinct (map email_c (customers orders))
   \<and> set (map email_c (customers orders)) = email ` set orders
   \<and> length (customers orders) = card (email ` set orders)
   \<and> (\<forall>c\<in>set (customers orders).
         count c = length (filter (\<lambda>od. email od = email_c c) orders)
         \<and> lastDate c = Max (created_at ` {od \<in> set orders. email od = email_c c})
         \<and> map_option customer_name
             (find (\<lambda>od. email od = email_c c \<and> created_at od = lastDate c) orders)
           = Some (name c))"
proof (intro conjI ballI)
  show "distinct (map email_c (customers orders))"
    by (rule customers_distinct)
  show "set (map email_c (customers orders)) = email ` set orders"
    by (rule customers_email_set)
  show "length (customers orders) = card (email ` set orders)"
    by (rule customers_length)
next
  fix c
  assume "c \<in> set (customers orders)"
  then have g: "map_get (foldl add_order [] orders) (email_c c) = Some c"
    by (rule customers_rows)
  note inv = row_invariant [OF g, unfolded row_ok_def]
  show "count c = length (filter (\<lambda>od. email od = email_c c) orders)"
    using inv by simp
  show n: "map_option customer_name
      (find (\<lambda>od. email od = email_c c \<and> created_at od = lastDate c) orders) = Some (name c)"
    using inv by simp
  then obtain y where "find (\<lambda>od. email od = email_c c \<and> created_at od = lastDate c) orders = Some y"
    by auto
  then have "y \<in> set orders \<and> email y = email_c c \<and> created_at y = lastDate c"
    by (auto simp: find_Some_iff)
  then have m: "lastDate c \<in> created_at ` {od \<in> set orders. email od = email_c c}"
    by force
  have "Max (created_at ` {od \<in> set orders. email od = email_c c}) = lastDate c"
  proof (rule Max_eqI)
    show "finite (created_at ` {od \<in> set orders. email od = email_c c})"
      by simp
    show "lastDate c \<in> created_at ` {od \<in> set orders. email od = email_c c}"
      by (rule m)
  next
    fix t
    assume "t \<in> created_at ` {od \<in> set orders. email od = email_c c}"
    then show "t \<le> lastDate c"
      using inv by auto
  qed
  then show "lastDate c = Max (created_at ` {od \<in> set orders. email od = email_c c})"
    by simp
qed

theorem customers_aggregate_witness:
  "customers [order_a, order_b] = [customer_ax]
   \<and> count customer_ax = length (filter (\<lambda>od. email od = ''a@x.com'') [order_a, order_b])
   \<and> lastDate customer_ax
       = Max (created_at ` {od \<in> set [order_a, order_b]. email od = ''a@x.com''})
   \<and> map_option customer_name
        (find (\<lambda>od. email od = ''a@x.com'' \<and> created_at od = ''2026-01-05T00:00:00Z'')
           [order_a, order_b])
      = Some ''New Name''"
proof -
  have c: "customers [order_a, order_b] = [customer_ax]"
    by code_simp
  have e: "email_c customer_ax = ''a@x.com''" "lastDate customer_ax = ''2026-01-05T00:00:00Z''"
    "name customer_ax = ''New Name''"
    by (simp_all add: customer_ax_def)
  have "customer_ax \<in> set (customers [order_a, order_b])"
    by (simp add: c)
  with customers_aggregate [of "[order_a, order_b]"]
  have "count customer_ax = length (filter (\<lambda>od. email od = email_c customer_ax) [order_a, order_b])
     \<and> lastDate customer_ax
         = Max (created_at ` {od \<in> set [order_a, order_b]. email od = email_c customer_ax})
     \<and> map_option customer_name
          (find (\<lambda>od. email od = email_c customer_ax \<and> created_at od = lastDate customer_ax)
            [order_a, order_b])
        = Some (name customer_ax)"
    by blast
  then show ?thesis
    using c unfolding e by blast
qed

lemma add_dummy_absent:
  "email_c d \<notin> fst ` set m \<Longrightarrow> add_dummy m d = m @ [(email_c d, d)]"
  by (simp add: add_dummy_def map_has_def map_get_None_iff map_set_new)

lemma add_dummy_present: "email_c d \<in> fst ` set m \<Longrightarrow> add_dummy m d = m"
  by (simp add: add_dummy_def map_has_def map_get_None_iff)

lemma foldl_add_dummy:
  "distinct (map email_c ds) \<Longrightarrow>
     foldl add_dummy m ds
       = m @ map (\<lambda>d. (email_c d, d)) (filter (\<lambda>d. email_c d \<notin> fst ` set m) ds)"
proof (induction ds arbitrary: m)
  case Nil
  show ?case by simp
next
  case (Cons d ds)
  have dist: "distinct (map email_c ds)" and fresh: "email_c d \<notin> email_c ` set ds"
    using Cons.prems by simp_all
  show ?case
  proof (cases "email_c d \<in> fst ` set m")
    case True
    then show ?thesis
      using Cons.IH [OF dist, of m] by (simp add: add_dummy_present)
  next
    case False
    have ne: "\<forall>x\<in>set ds. email_c x \<noteq> email_c d"
      using fresh by (metis imageI)
    have "filter (\<lambda>x. email_c x \<notin> fst ` set (m @ [(email_c d, d)])) ds
        = filter (\<lambda>x. email_c x \<notin> fst ` set m) ds"
      using ne by (intro filter_cong) auto
    then show ?thesis
      using Cons.IH [OF dist, of "m @ [(email_c d, d)]"] False
      by (simp add: add_dummy_absent)
  qed
qed

lemma customers_merged_eq:
  assumes "distinct (map email_c ds)"
  shows "customers_merged ds os
     = customers os @ filter (\<lambda>d. email_c d \<notin> email ` set os) ds"
  unfolding customers_merged_def customers_def map_values_def
  by (simp add: foldl_add_dummy [OF assms] keys_foldl_set o_def)

lemma DUMMY_CUSTOMERS_distinct: "distinct (map email_c DUMMY_CUSTOMERS)"
  by code_simp

text \<open>
  Claim C10. In the view that merges the fixed data set, the rows are those of the
  aggregation of the fetched orders, followed by the fixed entries whose address occurs
  in no fetched order; so the rows whose address occurs among the fetched orders are
  exactly the rows computed from the fetched orders, whatever the fixed entries are.
\<close>

theorem dummy_merge_real_first:
  "customers_with_dummy orders
     = customers orders @ filter (\<lambda>d. email_c d \<notin> email ` set orders) DUMMY_CUSTOMERS
   \<and> filter (\<lambda>c. email_c c \<in> email ` set orders) (customers_with_dummy orders)
     = customers orders"
proof
  show m: "customers_with_dummy orders
      = customers orders @ filter (\<lambda>d. email_c d \<notin> email ` set orders) DUMMY_CUSTOMERS"
    unfolding customers_with_dummy_def
    by (rule customers_merged_eq) (rule DUMMY_CUSTOMERS_distinct)
  have "\<forall>c\<in>set (customers orders). email_c c \<in> email ` set orders"
    using customers_email_set [of orders] by auto
  then have "filter (\<lambda>c. email_c c \<in> email ` set orders) (customers orders) = customers orders"
    by (simp add: filter_id_conv)
  then show "filter (\<lambda>c. email_c c \<in> email ` set orders) (customers_with_dummy orders)
      = customers orders"
    unfolding m by simp
qed

theorem dummy_merge_real_first_witness:
  "customers [order_rahul]
     = [\<lparr>email_c = ''rahul.sharma@email.com'', name = ''Rahul S'', count = 1,
         lastDate = ''2026-03-01T09:15:00+00:00''\<rparr>]
   \<and> filter (\<lambda>d. email_c d \<notin> email ` set [order_rahul]) DUMMY_CUSTOMERS = tl DUMMY_CUSTOMERS
   \<and> customers_with_dummy [order_rahul] = customers [order_rahul] @ tl DUMMY_CUSTOMERS"
proof -
  have c: "customers [order_rahul]
      = [\<lparr>email_c = ''rahul.sharma@email.com'', name = ''Rahul S'', count = 1,
          lastDate = ''2026-03-01T09:15:00+00:00''\<rparr>]"
    by code_simp
  have f: "filter (\<lambda>d. email_c d \<notin> email ` set [order_rahul]) DUMMY_CUSTOMERS
      = tl DUMMY_CUSTOMERS"
    by code_simp
  from dummy_merge_real_first [of "[order_rahul]"] c f show ?thesis
    by simp
qed

section \<open>Properties of the dashboard series\<close>

text \<open>
  Claim C5. Whatever the orders and the instant of viewing, the daily series has
  fourteen entries; entry \<open>i\<close> (counting from 0) belongs to the day \<open>13 - i\<close> days before
  today, so the oldest day comes first and today last, and its value is the number of
  orders whose created timestamp prints as that calendar day; for no orders all
  fourteen values are zero.
\<close>

theorem lineData_fourteen_days:
  "length (lineData L now orders) = 14
   \<and> (\<forall>i<14. lineData L now orders ! i =
         (format L (subDays L now (13 - i)) ''MMM d'',
          length (filter (\<lambda>od. format L (newDate L (created_at od)) ''yyyy-MM-dd''
                                = format L (subDays L now (13 - i)) ''yyyy-MM-dd'') orders)))
   \<and> map snd (lineData L now []) = replicate 14 0"
proof (intro conjI allI impI)
  show "length (lineData L now orders) = 14"
    by (simp add: lineData_def)
next
  fix i :: nat
  assume "i < 14"
  then have "[0..<14] ! i = i" and "i < length [0..<14]"
    by simp_all
  then show "lineData L now orders ! i =
      (format L (subDays L now (13 - i)) ''MMM d'',
       length (filter (\<lambda>od. format L (newDate L (created_at od)) ''yyyy-MM-dd''
                             = format L (subDays L now (13 - i)) ''yyyy-MM-dd'') orders))"
    unfolding lineData_def by (simp only: nth_map Let_def)
next
  have "map snd (lineData L now []) = map (\<lambda>i. 0) [0..<14]"
    by (simp add: lineData_def o_def)
  also have "\<dots> = replicate 14 0"
    by (simp add: map_replicate_const)
  finally show "map snd (lineData L now []) = replicate 14 0" .
qed

theorem lineData_fourteen_days_witness:
  "(9::nat) < 14
   \<and> length (lineData utc_lib (utc_newDate ''2026-01-05T18:30:00Z'') [order_a, order_b]) = 14
   \<and> lineData utc_lib (utc_newDate ''2026-01-05T18:30:00Z'') [order_a, order_b] ! 9
       = (''Jan 1'', 1)
   \<and> lineData utc_lib (utc_newDate ''2026-01-05T18:30:00Z'') [order_a, order_b] ! 13
       = (''Jan 5'', 1)"
proof -
  let ?now = "utc_newDate ''2026-01-05T18:30:00Z''"
  have a: "(format utc_lib (subDays utc_lib ?now (13 - 9)) ''MMM d'',
       length (filter (\<lambda>od. format utc_lib (newDate utc_lib (created_at od)) ''yyyy-MM-dd''
                 = format utc_lib (subDays utc_lib ?now (13 - 9)) ''yyyy-MM-dd'')
          [order_a, order_b])) = (''Jan 1'', 1)"
    by (simp only: filter.simps, code_simp)
  have b: "(format utc_lib (subDays utc_lib ?now (13 - 13)) ''MMM d'',
       length (filter (\<lambda>od. format utc_lib (newDate utc_lib (created_at od)) ''yyyy-MM-dd''
                 = format utc_lib (subDays utc_lib ?now (13 - 13)) ''yyyy-MM-dd'')
          [order_a, order_b])) = (''Jan 5'', 1)"
    by (simp only: filter.simps, code_simp)
  have h: "(9::nat) < 14" "(13::nat) < 14"
    by simp_all
  from lineData_fourteen_days [of utc_lib ?now "[order_a, order_b]"] h
  have "length (lineData utc_lib ?now [order_a, order_b]) = 14
     \<and> lineData utc_lib ?now [order_a, order_b] ! 9 =
         (format utc_lib (subDays utc_lib ?now (13 - 9)) ''MMM d'',
          length (filter (\<lambda>od. format utc_lib (newDate utc_lib (created_at od)) ''yyyy-MM-dd''
                    = format utc_lib (subDays utc_lib ?now (13 - 9)) ''yyyy-MM-dd'')
             [order_a, order_b]))
     \<and> lineData utc_lib ?now [order_a, order_b] ! 13 =
         (format utc_lib (subDays utc_lib ?now (13 - 13)) ''MMM d'',
          length (filter (\<lambda>od. format utc_lib (newDate utc_lib (created_at od)) ''yyyy-MM-dd''
                    = format utc_lib (subDays utc_lib ?now (13 - 13)) ''yyyy-MM-dd'')
             [order_a, order_b]))"
    by blast
  then show ?thesis
    unfolding a b using h by blast
qed

section \<open>The customer filter\<close>

text \<open>
  The filter keeps the rows that pass four tests. The lower bound lets every
  timestamp of the from-day through, and the upper bound every timestamp of the to-day
  whose time of day is before 23:59:59.
\<close>

lemma filtered_customers_exact:
  "filtered_customers L search minOrders dateFrom dateTo cs =
     filter (\<lambda>c.
        (toLowerCase L search = []
         \<or> (\<exists>ps ss. toLowerCase L (email_c c) = ps @ toLowerCase L search @ ss)
         \<or> (\<exists>ps ss. toLowerCase L (name c) = ps @ toLowerCase L search @ ss))
        \<and> (minOrders = ''all'' \<or> (\<exists>n. parseInt minOrders = Some n \<and> n \<le> int (count c)))
        \<and> (dateFrom = [] \<or> dateFrom \<le> lastDate c)
        \<and> (dateTo = [] \<or> lastDate c \<le> dateTo @ ''T23:59:59'')) cs"
proof -
  have "matchesMin minOrders c
      = (minOrders = ''all'' \<or> (\<exists>n. parseInt minOrders = Some n \<and> n \<le> int (count c)))" for c
    by (cases "parseInt minOrders") (simp_all add: matchesMin_def)
  then show ?thesis
    unfolding filtered_customers_def matchesSearch_c_def matchesFrom_def matchesTo_def Let_def
      includes_str_iff
    by simp
qed

lemma thresholds: "parseInt ''2'' = Some 2" "parseInt ''5'' = Some 5" "parseInt ''10'' = Some 10"
  by code_simp+

lemma from_day_inclusive: "matchesFrom dateFrom (c\<lparr>lastDate := dateFrom @ rest\<rparr>)"
proof -
  have "dateFrom \<le> dateFrom @ rest"
    by (induction dateFrom) simp_all
  then show ?thesis
    by (simp add: matchesFrom_def)
qed

lemma to_day_before_last_second:
  "t < ''T23:59:59'' \<Longrightarrow> length t = 9 \<Longrightarrow> matchesTo dateTo (c\<lparr>lastDate := dateTo @ t @ rest\<rparr>)"
proof -
  assume t: "t < ''T23:59:59''" and n: "length t = 9"
  have a: "u < v \<Longrightarrow> length u = length v \<Longrightarrow> u @ r < v" for u v r :: string
  proof (induction u arbitrary: v)
    case Nil
    then show ?case by simp
  next
    case (Cons x u)
    then obtain y v' where v: "v = y # v'"
      by (cases v) auto
    show ?case
      using Cons unfolding v by (auto split: if_splits)
  qed
  have "t @ rest < ''T23:59:59''"
    using t n by (intro a) simp_all
  then have "dateTo @ t @ rest \<le> dateTo @ ''T23:59:59''"
    by (induction dateTo) simp_all
  then show ?thesis
    by (simp add: matchesTo_def)
qed

text \<open>
  Claim C7 asks that every timestamp on the to-day pass the upper bound. The row
  \<open>customer_late\<close> has its last order on 2026-02-14, in the last second of the day; with
  no search text, no threshold, no from-day and the to-day 2026-02-14 the filter drops
  it: as strings, the timestamp is longer than, and so greater than, the bound
  \<open>2026-02-14T23:59:59\<close>.
\<close>

theorem to_day_last_second_dropped:
  "take 10 (lastDate customer_late) = ''2026-02-14''
   \<and> matchesSearch_c utc_lib [] customer_late \<and> matchesMin ''all'' customer_late
   \<and> matchesFrom [] customer_late \<and> \<not> matchesTo ''2026-02-14'' customer_late
   \<and> filtered_customers utc_lib [] ''all'' [] ''2026-02-14'' [customer_late] = []"
  by code_simp

section \<open>Properties of the exports\<close>

lemma join_Cons: "join sep (x # xs) = x @ concat (map (\<lambda>y. sep @ y) xs)"
  by (induction xs arbitrary: x) simp_all

lemma join_empty_sep: "join [] xs = concat xs"
  by (cases xs) (simp_all add: join_Cons)

lemma split_on_no_sep: "sep \<notin> set s \<Longrightarrow> split_on sep s = [s]"
  by (induction s) auto

lemma split_on_append:
  "sep \<notin> set h \<Longrightarrow> split_on sep (h @ sep # rest) = h # split_on sep rest"
  by (induction h) auto

lemma split_on_concat:
  "sep \<notin> set x \<Longrightarrow> \<forall>y\<in>set xs. sep \<notin> set y \<Longrightarrow>
     split_on sep (x @ concat (map (\<lambda>y. sep # y) xs)) = x # xs"
proof (induction xs arbitrary: x)
  case Nil
  then show ?case by (simp add: split_on_no_sep)
next
  case (Cons y ys)
  have "split_on sep (y @ concat (map (\<lambda>y. sep # y) ys)) = y # ys"
    using Cons.prems by (intro Cons.IH) simp_all
  then show ?case
    using Cons.prems(1) by (simp add: split_on_append)
qed

lemma split_on_join:
  "xs \<noteq> [] \<Longrightarrow> \<forall>x\<in>set xs. sep \<notin> set x \<Longrightarrow> split_on sep (join [sep] xs) = xs"
proof (cases xs)
  case Nil
  assume "xs \<noteq> []"
  then show ?thesis using Nil by simp
next
  case (Cons x rest)
  assume "\<forall>x\<in>set xs. sep \<notin> set x"
  then have "sep \<notin> set x" and "\<forall>y\<in>set rest. sep \<notin> set y"
    using Cons by simp_all
  then have "split_on sep (x @ concat (map (\<lambda>y. sep # y) rest)) = x # rest"
    by (rule split_on_concat)
  then show ?thesis
    using Cons by (simp add: join_Cons)
qed

lemma csv_header_no_newline:
  "CHR 0x0A \<notin> set ''Email,Customer Name,Total Orders,Last Order Date''"
  by simp

text \<open>
  Claim C8. A CSV row is the e-mail address, the name between double quotes, the count
  in decimal and the last order date printed with the pattern \<open>yyyy-MM-dd\<close>, separated
  by commas. The exported text is the header line, a line feed, and the rows joined by
  line feeds; so, when no row contains a line feed, its lines are the header followed by
  one row per aggregate in list order. The copied text is the first address followed by
  each further address preceded by a comma and a blank.
\<close>

theorem csv_export_and_copy:
  "csv_row L c =
     email_c c @ '','' @ [CHR 0x22] @ name c @ [CHR 0x22] @ '','' @ show_nat (count c) @ '',''
     @ format L (newDate L (lastDate c)) ''yyyy-MM-dd''
   \<and> exportCSV L cs =
       ''Email,Customer Name,Total Orders,Last Order Date'' @ [CHR 0x0A]
       @ join [CHR 0x0A] (map (csv_row L) cs)
   \<and> exportCSV L [] = ''Email,Customer Name,Total Orders,Last Order Date'' @ [CHR 0x0A]
   \<and> (cs \<noteq> [] \<and> (\<forall>x\<in>set cs. CHR 0x0A \<notin> set (csv_row L x)) \<longrightarrow>
        split_on (CHR 0x0A) (exportCSV L cs) =
          ''Email,Customer Name,Total Orders,Last Order Date'' # map (csv_row L) cs)
   \<and> copyAll cs =
       (case cs of [] \<Rightarrow> [] | x # rest \<Rightarrow> email_c x @ concat (map (\<lambda>d. '', '' @ email_c d) rest))"
proof (intro conjI impI)
  show "csv_row L c =
     email_c c @ '','' @ [CHR 0x22] @ name c @ [CHR 0x22] @ '','' @ show_nat (count c) @ '',''
     @ format L (newDate L (lastDate c)) ''yyyy-MM-dd''"
    by (simp add: csv_row_def)
  show e: "exportCSV L cs =
       ''Email,Customer Name,Total Orders,Last Order Date'' @ [CHR 0x0A]
       @ join [CHR 0x0A] (map (csv_row L) cs)"
    by (simp add: exportCSV_def csv_header_def)
  show "exportCSV L [] = ''Email,Customer Name,Total Orders,Last Order Date'' @ [CHR 0x0A]"
    by (simp add: exportCSV_def csv_header_def)
  show "copyAll cs =
       (case cs of [] \<Rightarrow> [] | x # rest \<Rightarrow> email_c x @ concat (map (\<lambda>d. '', '' @ email_c d) rest))"
    by (cases cs) (simp_all add: copyAll_def join_Cons o_def)
next
  assume a: "cs \<noteq> [] \<and> (\<forall>x\<in>set cs. CHR 0x0A \<notin> set (csv_row L x))"
  then have "split_on (CHR 0x0A) (join [CHR 0x0A] (map (csv_row L) cs)) = map (csv_row L) cs"
    by (intro split_on_join) auto
  moreover have "exportCSV L cs =
      ''Email,Customer Name,Total Orders,Last Order Date''
      @ CHR 0x0A # join [CHR 0x0A] (map (csv_row L) cs)"
    by (simp add: exportCSV_def csv_header_def)
  ultimately show "split_on (CHR 0x0A) (exportCSV L cs) =
      ''Email,Customer Name,Total Orders,Last Order Date'' # map (csv_row L) cs"
    using split_on_append [OF csv_header_no_newline] by simp
qed

theorem csv_export_and_copy_witness:
  "[customer_ax, customer_late] \<noteq> []
   \<and> CHR 0x0A \<notin> set (csv_row utc_lib customer_ax)
   \<and> CHR 0x0A \<notin> set (csv_row utc_lib customer_late)
   \<and> split_on (CHR 0x0A) (exportCSV utc_lib [customer_ax, customer_late]) =
       [''Email,Customer Name,Total Orders,Last Order Date'',
        ''a@x.com,'' @ [CHR 0x22] @ ''New Name'' @ [CHR 0x22] @ '',2,2026-01-05'',
        ''late@x.com,'' @ [CHR 0x22] @ ''Late Order'' @ [CHR 0x22] @ '',1,2026-02-14'']
   \<and> copyAll [customer_ax, customer_late] = ''a@x.com, late@x.com''"
proof -
  have r1: "csv_row utc_lib customer_ax
      = ''a@x.com,'' @ [CHR 0x22] @ ''New Name'' @ [CHR 0x22] @ '',2,2026-01-05''"
    by code_simp
  have r2: "csv_row utc_lib customer_late
      = ''late@x.com,'' @ [CHR 0x22] @ ''Late Order'' @ [CHR 0x22] @ '',1,2026-02-14''"
    by code_simp
  have n1: "CHR 0x0A \<notin> set (csv_row utc_lib customer_ax)"
    unfolding r1 by simp
  have n2: "CHR 0x0A \<notin> set (csv_row utc_lib customer_late)"
    unfolding r2 by simp
  have c: "copyAll [customer_ax, customer_late] = ''a@x.com, late@x.com''"
    by code_simp
  have h: "[customer_ax, customer_late] \<noteq> []
      \<and> (\<forall>x\<in>set [customer_ax, customer_late]. CHR 0x0A \<notin> set (csv_row utc_lib x))"
    using n1 n2 by simp
  from csv_export_and_copy [of utc_lib _ "[customer_ax, customer_late]"] h
  have "split_on (CHR 0x0A) (exportCSV utc_lib [customer_ax, customer_late]) =
      ''Email,Customer Name,Total Orders,Last Order Date''
      # map (csv_row utc_lib) [customer_ax, customer_late]"
    by blast
  then have "split_on (CHR 0x0A) (exportCSV utc_lib [customer_ax, customer_late]) =
       [''Email,Customer Name,Total Orders,Last Order Date'',
        ''a@x.com,'' @ [CHR 0x22] @ ''New Name'' @ [CHR 0x22] @ '',2,2026-01-05'',
        ''late@x.com,'' @ [CHR 0x22] @ ''Late Order'' @ [CHR 0x22] @ '',1,2026-02-14'']"
    by (simp only: list.map r1 r2)
  then show ?thesis
    using n1 n2 c by blast
qed

text \<open>
  Claim C9. For whatever list the page holds, the PDF table's body has one row per
  order of the list, row \<open>i\<close> made of the seven fields of order \<open>i\<close>, and the printed
  document (when the print window opens) has, between the table head and the closing
  tags, one table row per order of the list with the same seven fields, one after the
  other in list order; nothing is filtered, sorted, added or left out. The header of the
  PDF has the line \<open>Generated: \<close> with the current instant and the line with the number
  of orders; the paragraph above the printed table has the current instant and the
  number of orders.
\<close>

theorem exports_render_the_list:
  "table_body (exportPDF L now filtered) =
     map (\<lambda>od. [customer_name od, email od, phone_number od, pickup_date od, time_slot od,
                  status od, format L (newDate L (created_at od)) ''MMM d, yyyy'']) filtered
   \<and> length (table_body (exportPDF L now filtered)) = length filtered
   \<and> texts (exportPDF L now filtered) =
       [(''Vinayaka Pooja Flowers'', 14, 18),
        (''Generated: '' @ format L now ''PPpp'', 14, 26),
        (show_nat (length filtered) @ '' orders'', 14, 32)]
   \<and> handlePrint L now True filtered =
       Some (print_prefix @ format L now ''PPpp'' @ print_dash @ show_nat (length filtered)
             @ print_table_head
             @ concat (map (\<lambda>od. ''<tr><td>'' @ customer_name od @ ''</td><td>'' @ email od
                              @ ''</td><td>'' @ phone_number od @ ''</td><td>'' @ pickup_date od
                              @ ''</td><td>'' @ time_slot od @ ''</td><td>'' @ status od
                              @ ''</td><td>''
                              @ format L (newDate L (created_at od)) ''MMM d, yyyy''
                              @ ''</td></tr>'') filtered)
             @ print_suffix)
   \<and> handlePrint L now False filtered = None"
proof -
  have "print_row L = (\<lambda>od. ''<tr><td>'' @ customer_name od @ ''</td><td>'' @ email od
      @ ''</td><td>'' @ phone_number od @ ''</td><td>'' @ pickup_date od
      @ ''</td><td>'' @ time_slot od @ ''</td><td>'' @ status od @ ''</td><td>''
      @ format L (newDate L (created_at od)) ''MMM d, yyyy'' @ ''</td></tr>'')"
    by (rule ext) (simp add: print_row_def)
  then show ?thesis
    by (simp add: exportPDF_def handlePrint_def pdf_row_def join_empty_sep)
qed

theorem exports_render_the_list_witness:
  "table_body (exportPDF utc_lib (utc_newDate ''2026-02-14T13:05:09Z'') [order_b, order_a]) =
     [[''New Name'', ''a@x.com'', ''9840067890'', ''2026-01-10'', ''Night'', ''Pending'',
       ''Jan 5, 2026''],
      [''Old Name'', ''a@x.com'', ''9840012345'', ''2026-01-10'', ''Evening'', ''Completed'',
       ''Jan 1, 2026'']]
   \<and> texts (exportPDF utc_lib (utc_newDate ''2026-02-14T13:05:09Z'') [order_b, order_a]) =
       [(''Vinayaka Pooja Flowers'', 14, 18),
        (''Generated: Feb 14, 2026, 1:05:09 PM'', 14, 26),
        (''2 orders'', 14, 32)]
   \<and> handlePrint utc_lib (utc_newDate ''2026-02-14T13:05:09Z'') True [order_b, order_a] =
       Some (''<!DOCTYPE html><html><head><title>Vinayaka Orders</title><style>body{font-family:sans-serif;padding:20px}h1{color:#5c3310}table{width:100%;border-collapse:collapse;margin-top:12px}th,td{border:1px solid #ddd;padding:6px 8px;text-align:left;font-size:12px}th{background:#d97706;color:#fff}</style></head><body><h1>Vinayaka Pooja Flowers</h1><p>Feb 14, 2026, 1:05:09 PM ''
             @ [CHR 0xE2, CHR 0x80, CHR 0x94]
             @ '' 2 orders</p><table><tr><th>Customer</th><th>Email</th><th>Phone</th><th>Pickup</th><th>Slot</th><th>Status</th><th>Created</th></tr><tr><td>New Name</td><td>a@x.com</td><td>9840067890</td><td>2026-01-10</td><td>Night</td><td>Pending</td><td>Jan 5, 2026</td></tr><tr><td>Old Name</td><td>a@x.com</td><td>9840012345</td><td>2026-01-10</td><td>Evening</td><td>Completed</td><td>Jan 1, 2026</td></tr></table><script>window.print();window.close();</script></body></html>'')"
proof -
  let ?now = "utc_newDate ''2026-02-14T13:05:09Z''"
  have b: "map (\<lambda>od. [customer_name od, email od, phone_number od, pickup_date od, time_slot od,
                  status od, format utc_lib (newDate utc_lib (created_at od)) ''MMM d, yyyy''])
        [order_b, order_a] =
     [[''New Name'', ''a@x.com'', ''9840067890'', ''2026-01-10'', ''Night'', ''Pending'',
       ''Jan 5, 2026''],
      [''Old Name'', ''a@x.com'', ''9840012345'', ''2026-01-10'', ''Evening'', ''Completed'',
       ''Jan 1, 2026'']]"
    by (simp only: list.map, code_simp)
  have t: "[(''Vinayaka Pooja Flowers'', 14::nat, 18::nat),
        (''Generated: '' @ format utc_lib ?now ''PPpp'', 14, 26),
        (show_nat (length [order_b, order_a]) @ '' orders'', 14, 32)] =
       [(''Vinayaka Pooja Flowers'', 14, 18),
        (''Generated: Feb 14, 2026, 1:05:09 PM'', 14, 26),
        (''2 orders'', 14, 32)]"
    by code_simp
  have p: "print_prefix @ format utc_lib ?now ''PPpp'' @ print_dash
        @ show_nat (length [order_b, order_a]) @ print_table_head
        @ concat (map (\<lambda>od. ''<tr><td>'' @ customer_name od @ ''</td><td>'' @ email od
                         @ ''</td><td>'' @ phone_number od @ ''</td><td>'' @ pickup_date od
                         @ ''</td><td>'' @ time_slot od @ ''</td><td>'' @ status od
                         @ ''</td><td>''
                         @ format utc_lib (newDate utc_lib (created_at od)) ''MMM d, yyyy''
                         @ ''</td></tr>'') [order_b, order_a])
        @ print_suffix =
       ''<!DOCTYPE html><html><head><title>Vinayaka Orders</title><style>body{font-family:sans-serif;padding:20px}h1{color:#5c3310}table{width:100%;border-collapse:collapse;margin-top:12px}th,td{border:1px solid #ddd;padding:6px 8px;text-align:left;font-size:12px}th{background:#d97706;color:#fff}</style></head><body><h1>Vinayaka Pooja Flowers</h1><p>Feb 14, 2026, 1:05:09 PM ''
       @ [CHR 0xE2, CHR 0x80, CHR 0x94]
       @ '' 2 orders</p><table><tr><th>Customer</th><th>Email</th><th>Phone</th><th>Pickup</th><th>Slot</th><th>Status</th><th>Created</th></tr><tr><td>New Name</td><td>a@x.com</td><td>9840067890</td><td>2026-01-10</td><td>Night</td><td>Pending</td><td>Jan 5, 2026</td></tr><tr><td>Old Name</td><td>a@x.com</td><td>9840012345</td><td>2026-01-10</td><td>Evening</td><td>Completed</td><td>Jan 1, 2026</td></tr></table><script>window.print();window.close();</script></body></html>''"
    by (simp only: list.map, code_simp)
  from exports_render_the_list [of utc_lib ?now "[order_b, order_a]"] show ?thesis
    unfolding b t p by blast
qed

end
